theory Spec2Isabelle
  imports
    Complex_Main
    "HOL-Library.Char_ord"
    "HOL-Library.List_Lexorder"
    "HOL-Library.Option_ord"
begin

section \<open>Test Automation Hub: result store, run orchestrator, reporting queries\<close>

text \<open>
  A shallow embedding of \<^verbatim>\<open>web-app.py\<close>. The SQLite table \<^verbatim>\<open>test_results\<close> is a list
  of rows in storage order, Python's \<^verbatim>\<open>None\<close> and SQL's \<^verbatim>\<open>NULL\<close> are \<open>None\<close>, text is
  \<open>string\<close> and is compared the way SQLite's default \<^verbatim>\<open>BINARY\<close> collation compares it
  (bytewise, a proper prefix first), which is the order of \<open>HOL-Library.List_Lexorder\<close>
  over \<open>HOL-Library.Char_ord\<close>. Floating point numbers are idealised as \<open>real\<close>.
  Everything the code reads from outside (the wall clock, what the child process did,
  whether the database could be written) is an explicit argument. Python is CPython on
  the GNU C library, whose \<^verbatim>\<open>strftime\<close> the program prints its dates with.
\<close>

subsection \<open>Arguments with a default\<close>

text \<open>
  An argument that the signature gives a default is an option: \<open>None\<close> is a call that
  leaves it out.
\<close>

definition or_default :: "'a option \<Rightarrow> 'a \<Rightarrow> 'a" where
  "or_default arg dflt = (case arg of None \<Rightarrow> dflt | Some v \<Rightarrow> v)"

subsection \<open>Wall-clock time\<close>

text \<open>
  A \<^verbatim>\<open>datetime\<close> without its microseconds, which no format of the program prints.
\<close>

record datetime =
  year :: nat
  month :: nat
  day :: nat
  hour :: nat
  minute :: nat
  second :: nat

definition is_leap :: "nat \<Rightarrow> bool" where
  "is_leap y = (y mod 4 = 0 \<and> (y mod 100 \<noteq> 0 \<or> y mod 400 = 0))"

definition days_in_month :: "nat \<Rightarrow> nat \<Rightarrow> nat" where
  "days_in_month y m =
     (if m = 2 then (if is_leap y then 29 else 28)
      else if m = 4 \<or> m = 6 \<or> m = 9 \<or> m = 11 then 30 else 31)"

text \<open>The values a Python \<^verbatim>\<open>datetime\<close> can hold: years 1 to 9999 of the proleptic
  Gregorian calendar.\<close>

definition valid_datetime :: "datetime \<Rightarrow> bool" where
  "valid_datetime d =
     (1 \<le> year d \<and> year d \<le> 9999 \<and> 1 \<le> month d \<and> month d \<le> 12 \<and>
      1 \<le> day d \<and> day d \<le> days_in_month (year d) (month d) \<and>
      hour d < 24 \<and> minute d < 60 \<and> second d < 60)"

text \<open>Chronological order of two datetimes, field by field.\<close>

definition before :: "datetime \<Rightarrow> datetime \<Rightarrow> bool" where
  "before a b =
     (year a < year b \<or> (year a = year b \<and>
     (month a < month b \<or> (month a = month b \<and>
     (day a < day b \<or> (day a = day b \<and>
     (hour a < hour b \<or> (hour a = hour b \<and>
     (minute a < minute b \<or> (minute a = minute b \<and> second a < second b))))))))))"

text \<open>
  The exceptions of the model: of the date arithmetic, of \<^verbatim>\<open>sqlite3\<close> (with its
  message), of a division by zero and of \<^verbatim>\<open>statistics.mean\<close> on no data.
\<close>

datatype error = OverflowError | OperationalError string | ZeroDivisionError | StatisticsError

text \<open>\<^verbatim>\<open>str(e)\<close> of an exception.\<close>

fun error_text :: "error \<Rightarrow> string" where
  "error_text OverflowError = ''date value out of range''"
| "error_text (OperationalError msg) = msg"
| "error_text ZeroDivisionError = ''division by zero''"
| "error_text StatisticsError = ''mean requires at least one data point''"

text \<open>
  \<^verbatim>\<open>datetime.now() - timedelta(days=days)\<close>: the calendar date moves back by \<open>days\<close> days
  (forward when \<open>days\<close> is negative), the time of day stays, and Python raises
  \<^verbatim>\<open>OverflowError\<close> when the result leaves the years 1 to 9999.
\<close>

definition prev_day :: "datetime \<Rightarrow> datetime option" where
  "prev_day d =
     (if 1 < day d then Some (d\<lparr>day := day d - 1\<rparr>)
      else if 1 < month d
        then Some (d\<lparr>month := month d - 1, day := days_in_month (year d) (month d - 1)\<rparr>)
      else if 1 < year d then Some (d\<lparr>year := year d - 1, month := 12, day := 31\<rparr>)
      else None)"

definition next_day :: "datetime \<Rightarrow> datetime option" where
  "next_day d =
     (if day d < days_in_month (year d) (month d) then Some (d\<lparr>day := day d + 1\<rparr>)
      else if month d < 12 then Some (d\<lparr>month := month d + 1, day := 1\<rparr>)
      else if year d < 9999 then Some (d\<lparr>year := year d + 1, month := 1, day := 1\<rparr>)
      else None)"

fun iterate :: "nat \<Rightarrow> ('a \<Rightarrow> 'a option) \<Rightarrow> 'a \<Rightarrow> 'a option" where
  "iterate 0 f x = Some x"
| "iterate (Suc n) f x = (case f x of None \<Rightarrow> None | Some y \<Rightarrow> iterate n f y)"

definition minus_days :: "datetime \<Rightarrow> int \<Rightarrow> datetime option" where
  "minus_days d days =
     (if 0 \<le> days then iterate (nat days) prev_day d else iterate (nat (- days)) next_day d)"





text \<open>
  \<^verbatim>\<open>strftime\<close>, as the C library prints the fields: \<^verbatim>\<open>%m %d %H %M %S\<close> in two digits
  with a leading zero, \<^verbatim>\<open>%Y\<close> as the year in decimal with no padding, so in four digits
  only from the year 1000 on. \<open>strftime sep1 sep2 sep3\<close> is the format
  \<^verbatim>\<open>%Y<sep1>%m<sep1>%d<sep2>%H<sep3>%M<sep3>%S\<close>.
\<close>

definition digit :: "nat \<Rightarrow> char" where
  "digit n = char_of (48 + n mod 10)"

definition pad2 :: "nat \<Rightarrow> string" where
  "pad2 n = [digit (n div 10), digit n]"

fun decimal :: "nat \<Rightarrow> string" where
  "decimal n = (if n < 10 then [digit n] else decimal (n div 10) @ [digit n])"

declare decimal.simps [simp del]

definition strftime :: "char \<Rightarrow> char \<Rightarrow> char \<Rightarrow> datetime \<Rightarrow> string" where
  "strftime sep1 sep2 sep3 d =
     decimal (year d) @ sep1 # pad2 (month d) @ sep1 # pad2 (day d) @ sep2 #
     pad2 (hour d) @ sep3 # pad2 (minute d) @ sep3 # pad2 (second d)"

text \<open>A number in four digits with leading zeros, which is what \<^verbatim>\<open>%Y\<close> prints for the
  years 1000 to 9999.\<close>

definition pad4 :: "nat \<Rightarrow> string" where
  "pad4 n = pad2 (n div 100) @ pad2 n"

text \<open>\<^verbatim>\<open>"%Y-%m-%d %H:%M:%S"\<close>, the format of the \<^verbatim>\<open>execution_date\<close> column.\<close>

definition timestamp :: "datetime \<Rightarrow> string" where
  "timestamp d = strftime (CHR ''-'') (CHR '' '') (CHR '':'') d"

text \<open>\<^verbatim>\<open>"%Y-%m-%d_%H-%M-%S"\<close>, the format used in log file names.\<close>

definition log_stamp :: "datetime \<Rightarrow> string" where
  "log_stamp d = strftime (CHR ''-'') (CHR ''_'') (CHR ''-'') d"

definition is_digit :: "char \<Rightarrow> bool" where
  "is_digit c = (CHR ''0'' \<le> c \<and> c \<le> CHR ''9'')"

text \<open>The shape \<^verbatim>\<open>YYYY-MM-DD HH:MM:SS\<close>.\<close>

definition timestamp_format :: "string \<Rightarrow> bool" where
  "timestamp_format s =
     (length s = 19 \<and>
      list_all is_digit (take 4 s) \<and> s ! 4 = CHR ''-'' \<and>
      list_all is_digit (take 2 (drop 5 s)) \<and> s ! 7 = CHR ''-'' \<and>
      list_all is_digit (take 2 (drop 8 s)) \<and> s ! 10 = CHR '' '' \<and>
      list_all is_digit (take 2 (drop 11 s)) \<and> s ! 13 = CHR '':'' \<and>
      list_all is_digit (take 2 (drop 14 s)) \<and> s ! 16 = CHR '':'' \<and>
      list_all is_digit (take 2 (drop 17 s)))"

text \<open>
  A reading of the wall clock, \<^verbatim>\<open>datetime.now()\<close>: a datetime of the year 1000 or later,
  since no system clock reads an earlier year. \<open>reading c\<close> is the datetime read.
\<close>

typedef clock = "{d. valid_datetime d \<and> 1000 \<le> year d}"
  morphisms reading Clock
  by (rule exI [of _ "\<lparr>year = 1970, month = 1, day = 1, hour = 0, minute = 0, second = 0\<rparr>"])
    (simp add: valid_datetime_def days_in_month_def)

setup_lifting type_definition_clock

subsection \<open>The result store\<close>

text \<open>
  One row of \<^verbatim>\<open>test_results\<close>. The schema declares no column \<^verbatim>\<open>NOT NULL\<close>, so every
  column but the key is optional.
\<close>

record test_result =
  row_id :: nat
  test_name :: "string option"
  execution_date :: "string option"
  duration :: "real option"
  status :: "string option"

text \<open>
  The table and the counter that \<^verbatim>\<open>AUTOINCREMENT\<close> keeps in \<^verbatim>\<open>sqlite_sequence\<close>: a new key
  is one more than the largest key the table has ever held.
\<close>

record store =
  rows :: "test_result list"
  last_id :: nat

definition init_db :: "store" where
  "init_db = \<lparr>rows = [], last_id = 0\<rparr>"

definition next_id :: "store \<Rightarrow> nat" where
  "next_id st = Suc (fold max (map row_id (rows st)) (last_id st))"

text \<open>
  \<^verbatim>\<open>save_test_result(test_name, duration, status)\<close>. \<open>now\<close> is the clock reading of the
  call; \<open>fault\<close> is the message of the \<^verbatim>\<open>sqlite3\<close> exception when the database cannot
  be written, in which case the transaction leaves the table as it was.
\<close>

definition save_test_result ::
  "clock \<Rightarrow> string option \<Rightarrow> string option \<Rightarrow> real \<Rightarrow> string option \<Rightarrow> store \<Rightarrow> error + store"
where
  "save_test_result now fault name dur stat st =
     (case fault of
        Some msg \<Rightarrow> Inl (OperationalError msg)
      | None \<Rightarrow>
          Inr \<lparr>rows = rows st @
                 [\<lparr>row_id = next_id st, test_name = name,
                   execution_date = Some (timestamp (reading now)),
                   duration = Some dur, status = stat\<rparr>],
               last_id = next_id st\<rparr>)"

subsection \<open>The run orchestrator\<close>

text \<open>\<^verbatim>\<open>os.path.basename\<close>, \<^verbatim>\<open>os.path.splitext(p)[0]\<close> and \<^verbatim>\<open>os.path.join\<close> of
  \<^verbatim>\<open>posixpath\<close>, and \<^verbatim>\<open>sep.join(xs)\<close>.\<close>

definition basename :: "string \<Rightarrow> string" where
  "basename p = rev (takeWhile (\<lambda>c. c \<noteq> CHR ''/'') (rev p))"

definition splitext_root :: "string \<Rightarrow> string" where
  "splitext_root p =
     (let name = basename p;
          ext = rev (takeWhile (\<lambda>c. c \<noteq> CHR ''.'') (rev name));
          stem = take (length name - length ext - 1) name
      in if length ext < length name \<and> (\<exists>c \<in> set stem. c \<noteq> CHR ''.'')
         then take (length p - length ext - 1) p else p)"

definition path_join :: "string \<Rightarrow> string \<Rightarrow> string" where
  "path_join a b =
     (if b \<noteq> [] \<and> hd b = CHR ''/'' then b
      else if a = [] \<or> last a = CHR ''/'' then a @ b
      else a @ CHR ''/'' # b)"

fun join :: "string \<Rightarrow> string list \<Rightarrow> string" where
  "join sep [] = []"
| "join sep [x] = x"
| "join sep (x # y # ys) = x @ sep @ join sep (y # ys)"

definition LOG_DIR :: string where
  "LOG_DIR = ''logs''"

text \<open>
  What the child process did: it ran to its end, leaving the lines of its combined
  output and an exit code, or launching it or reading from it raised an exception, of
  which the program keeps only \<^verbatim>\<open>str(e)\<close>.
\<close>

datatype proc_outcome = Completed "string list" int | Raised string

text \<open>
  What one iteration of the loop reads from outside: the clock for the log file name,
  the child process started with a command line, and for each of the two calls of
  \<^verbatim>\<open>save_test_result\<close> (in the \<^verbatim>\<open>try\<close> block, in the handler) the clock and the fault of
  the database, if any.
\<close>

record run_env =
  log_now :: clock
  popen :: "string list \<Rightarrow> proc_outcome"
  save_now :: clock
  save_fault :: "string option"
  handler_now :: clock
  handler_fault :: "string option"

type_synonym run_result = "string \<times> string \<times> string"

definition robot_cmd :: "clock \<Rightarrow> string \<Rightarrow> string \<Rightarrow> string list" where
  "robot_cmd now browser file_path =
     (let test_name = basename file_path;
          log_file = path_join LOG_DIR
            (splitext_root test_name @ ''_'' @ log_stamp (reading now) @ ''.html'')
      in [''robot'', ''--variable'', ''BROWSER:'' @ browser, ''--log'', log_file, file_path])"

text \<open>
  The body of the \<^verbatim>\<open>try\<close> block: \<open>Inl\<close> is the text of the exception that leaves it,
  raised by the child process or by the first \<^verbatim>\<open>save_test_result\<close>.
\<close>

definition try_run ::
  "run_env \<Rightarrow> string \<Rightarrow> string \<Rightarrow> store \<Rightarrow> string + (run_result \<times> store)"
where
  "try_run env browser file_path st =
     (let test_name = basename file_path in
      case popen env (robot_cmd (log_now env) browser file_path) of
        Raised msg \<Rightarrow> Inl msg
      | Completed output_lines returncode \<Rightarrow>
          (let dur = real (length output_lines);
               stat = (if returncode = 0 then ''Pass'' else ''Fail'')
           in case save_test_result (save_now env) (save_fault env)
                     (Some test_name) dur (Some stat) st of
                Inl e \<Rightarrow> Inl (error_text e)
              | Inr st' \<Rightarrow> Inr ((test_name, stat, join ''\<newline>'' output_lines), st')))"

text \<open>
  One iteration: the \<^verbatim>\<open>try\<close> block, and the handler when it raised. An exception of the
  handler's own \<^verbatim>\<open>save_test_result\<close> is not caught.
\<close>

definition run_one ::
  "run_env \<Rightarrow> string \<Rightarrow> string \<Rightarrow> store \<Rightarrow> (error + run_result) \<times> store"
where
  "run_one env browser file_path st =
     (case try_run env browser file_path st of
        Inr (res, st') \<Rightarrow> (Inr res, st')
      | Inl msg \<Rightarrow>
          (case save_test_result (handler_now env) (handler_fault env)
                  (Some (basename file_path)) 0 (Some ''Fail'') st of
             Inl e \<Rightarrow> (Inl e, st)
           | Inr st' \<Rightarrow> (Inr (basename file_path, ''Fail'', msg), st')))"

text \<open>
  The loop over \<^verbatim>\<open>file_paths\<close>, with the list \<^verbatim>\<open>results\<close> built so far; the \<open>i\<close>-th file
  of the batch meets the environment \<open>env i\<close>. An uncaught exception ends the batch and
  keeps the rows written before it.
\<close>

fun run_loop ::
  "(nat \<Rightarrow> run_env) \<Rightarrow> string \<Rightarrow> nat \<Rightarrow> string list \<Rightarrow> run_result list \<Rightarrow> store \<Rightarrow>
   (error + run_result list) \<times> store"
where
  "run_loop env browser i [] results st = (Inr results, st)"
| "run_loop env browser i (file_path # rest) results st =
     (case run_one (env i) browser file_path st of
        (Inl e, st') \<Rightarrow> (Inl e, st')
      | (Inr res, st') \<Rightarrow> run_loop env browser (Suc i) rest (results @ [res]) st')"

definition run_robot_tests ::
  "(nat \<Rightarrow> run_env) \<Rightarrow> string list \<Rightarrow> string option \<Rightarrow> store \<Rightarrow>
   (error + run_result list) \<times> store"
where
  "run_robot_tests env file_paths browser st =
     run_loop env (or_default browser ''chrome'') 0 file_paths [] st"

subsection \<open>SQL values and predicates\<close>

text \<open>
  A comparison with \<^verbatim>\<open>NULL\<close> is \<^verbatim>\<open>NULL\<close>, \<^verbatim>\<open>OR\<close> is three-valued, and \<^verbatim>\<open>WHERE\<close> keeps a
  row only when its condition is true.
\<close>

definition sql_lt :: "string option \<Rightarrow> string option \<Rightarrow> bool option" where
  "sql_lt a b = (case (a, b) of (Some x, Some y) \<Rightarrow> Some (x < y) | _ \<Rightarrow> None)"

definition sql_ge :: "string option \<Rightarrow> string option \<Rightarrow> bool option" where
  "sql_ge a b = (case (a, b) of (Some x, Some y) \<Rightarrow> Some (y \<le> x) | _ \<Rightarrow> None)"

definition sql_or :: "bool option \<Rightarrow> bool option \<Rightarrow> bool option" where
  "sql_or a b =
     (if a = Some True \<or> b = Some True then Some True
      else if a = None \<or> b = None then None else Some False)"

definition sql_true :: "bool option \<Rightarrow> bool" where
  "sql_true v = (v = Some True)"

text \<open>
  SQLite's \<^verbatim>\<open>LIKE\<close> without \<^verbatim>\<open>ESCAPE\<close>, as the connection has it by default: in the
  pattern \<^verbatim>\<open>%\<close> stands for any run of characters and \<^verbatim>\<open>_\<close> for any one character, and
  every other character stands for itself, the ASCII letters without regard to case.
\<close>

definition to_lower :: "char \<Rightarrow> char" where
  "to_lower c = (if CHR ''A'' \<le> c \<and> c \<le> CHR ''Z'' then char_of (of_char c + (32::nat)) else c)"

fun like_match :: "string \<Rightarrow> string \<Rightarrow> bool" where
  "like_match [] s = (s = [])"
| "like_match (p # ps) [] = (p = CHR ''%'' \<and> like_match ps [])"
| "like_match (p # ps) (c # cs) =
     (if p = CHR ''%'' then like_match ps (c # cs) \<or> like_match (p # ps) cs
      else (p = CHR ''_'' \<or> to_lower p = to_lower c) \<and> like_match ps cs)"

text \<open>
  What a pattern stands for, said without the matching procedure: every pattern character
  covers a piece of the text, \<^verbatim>\<open>%\<close> any piece, \<^verbatim>\<open>_\<close> any one character, another
  character one character equal to it up to the case of ASCII letters, and the pieces in
  order make up the text.
\<close>

definition like_covers :: "char \<Rightarrow> string \<Rightarrow> bool" where
  "like_covers p seg =
     (if p = CHR ''%'' then True
      else case seg of [c] \<Rightarrow> p = CHR ''_'' \<or> to_lower p = to_lower c | _ \<Rightarrow> False)"

definition like_denotes :: "string \<Rightarrow> string \<Rightarrow> bool" where
  "like_denotes pat s = (\<exists>segs. list_all2 like_covers pat segs \<and> concat segs = s)"

text \<open>\<open>is_substring f s\<close>: the text \<open>s\<close> contains \<open>f\<close> as a substring, character for
  character.\<close>

fun is_substring :: "string \<Rightarrow> string \<Rightarrow> bool" where
  "is_substring f [] = (f = [])"
| "is_substring f (c # cs) = (take (length f) (c # cs) = f \<or> is_substring f cs)"

definition sql_like :: "string option \<Rightarrow> string \<Rightarrow> bool option" where
  "sql_like v pat = (case v of None \<Rightarrow> None | Some s \<Rightarrow> Some (like_match pat s))"

text \<open>
  \<^verbatim>\<open>ORDER BY key DESC\<close>, where \<^verbatim>\<open>NULL\<close> is below every value. SQLite leaves the order
  of rows with equal keys open; here they stay in storage order.
\<close>

fun insert_desc :: "('a \<Rightarrow> 'k::linorder) \<Rightarrow> 'a \<Rightarrow> 'a list \<Rightarrow> 'a list" where
  "insert_desc key r [] = [r]"
| "insert_desc key r (x # xs) =
     (if key x \<le> key r then r # x # xs else x # insert_desc key r xs)"

fun order_by_desc :: "('a \<Rightarrow> 'k::linorder) \<Rightarrow> 'a list \<Rightarrow> 'a list" where
  "order_by_desc key [] = []"
| "order_by_desc key (r # rs) = insert_desc key r (order_by_desc key rs)"

text \<open>\<^verbatim>\<open>LIMIT n\<close>: a negative \<open>n\<close> is no limit.\<close>

definition sql_limit :: "int \<Rightarrow> 'a list \<Rightarrow> 'a list" where
  "sql_limit n xs = (if n < 0 then xs else take (nat n) xs)"

subsection \<open>Reading and sweeping the store\<close>

text \<open>
  \<^verbatim>\<open>get_recent_tests(limit=50, search=None)\<close>. \<open>sql_datetime\<close> is SQLite's function
  \<^verbatim>\<open>datetime()\<close>, which normalises the date texts it understands and is \<^verbatim>\<open>NULL\<close> on the
  rest. The data frame is the list of its rows.
\<close>

definition get_recent_tests ::
  "(string option \<Rightarrow> string option) \<Rightarrow> int option \<Rightarrow> string option \<Rightarrow> store \<Rightarrow>
   test_result list"
where
  "get_recent_tests sql_datetime limit search st =
     (let selected =
        (case search of
           None \<Rightarrow> rows st
         | Some s \<Rightarrow>
             if s = [] then rows st
             else filter (\<lambda>r. sql_true (sql_or (sql_like (test_name r) (''%'' @ s @ ''%''))
                                              (sql_like (status r) (''%'' @ s @ ''%''))))
                    (rows st))
      in sql_limit (or_default limit 50)
           (order_by_desc (\<lambda>r. sql_datetime (execution_date r)) selected))"

text \<open>\<^verbatim>\<open>statistics.mean\<close>, which raises on an empty list, and the division \<^verbatim>\<open>/\<close>,
  which raises on a zero divisor.\<close>

definition mean :: "real list \<Rightarrow> error + real" where
  "mean xs = (if xs = [] then Inl StatisticsError else Inr (sum_list xs / real (length xs)))"

definition truediv :: "real \<Rightarrow> real \<Rightarrow> error + real" where
  "truediv a b = (if b = 0 then Inl ZeroDivisionError else Inr (a / b))"

text \<open>\<^verbatim>\<open>get_kpis(days=7)\<close>, with \<open>now\<close> the clock reading of the call.\<close>

definition get_kpis ::
  "clock \<Rightarrow> int option \<Rightarrow> store \<Rightarrow> error + (nat \<times> real \<times> real)"
where
  "get_kpis now days st =
     (case minus_days (reading now) (or_default days 7) of
        None \<Rightarrow> Inl OverflowError
      | Some since \<Rightarrow>
          (let since_dt = timestamp since;
               rws = map (\<lambda>r. (duration r, status r))
                      (filter (\<lambda>r. sql_true (sql_ge (execution_date r) (Some since_dt))) (rows st));
               durations = List.map_filter fst rws
           in case (if durations \<noteq> [] then mean durations else Inr 0) of
                Inl e \<Rightarrow> Inl e
              | Inr avg \<Rightarrow>
                  (let total = length rws;
                       successes = sum_list (map (\<lambda>_. 1::nat)
                                     (filter (\<lambda>(_, s). s = Some ''Pass'') rws))
                   in case (if total \<noteq> 0
                            then (case truediv (real successes) (real total) of
                                    Inl e \<Rightarrow> Inl e | Inr q \<Rightarrow> Inr (q * 100))
                            else Inr 0) of
                        Inl e \<Rightarrow> Inl e
                      | Inr rate \<Rightarrow> Inr (total, rate, avg))))"

text \<open>\<^verbatim>\<open>delete_old_tests(days=10)\<close>, with \<open>now\<close> the clock reading of the call.\<close>

definition delete_old_tests :: "clock \<Rightarrow> int option \<Rightarrow> store \<Rightarrow> error + store" where
  "delete_old_tests now days st =
     (case minus_days (reading now) (or_default days 10) of
        None \<Rightarrow> Inl OverflowError
      | Some since \<Rightarrow>
          (let threshold = timestamp since
           in Inr (st\<lparr>rows := filter (\<lambda>r. \<not> sql_true (sql_lt (execution_date r) (Some threshold)))
                                (rows st)\<rparr>)))"

text \<open>
  The daily trend query of the page: \<^verbatim>\<open>GROUP BY DATE(execution_date)\<close> with the two
  conditional sums, \<^verbatim>\<open>ORDER BY DATE(execution_date)\<close>. \<open>sql_date\<close> is SQLite's function
  \<^verbatim>\<open>date()\<close>; the rows on which it is \<^verbatim>\<open>NULL\<close> form one group, which comes first.
\<close>

definition daily_trend ::
  "(string option \<Rightarrow> string option) \<Rightarrow> store \<Rightarrow> (string option \<times> int \<times> int) list"
where
  "daily_trend sql_date st =
     map (\<lambda>d.
            (let grp = filter (\<lambda>r. sql_date (execution_date r) = d) (rows st)
             in (d,
                 sum_list (map (\<lambda>r. if status r = Some ''Pass'' then 1 else 0) grp),
                 sum_list (map (\<lambda>r. if status r = Some ''Fail'' then 1 else 0) grp))))
         (sort (remdups (map (\<lambda>r. sql_date (execution_date r)) (rows st))))"

subsection \<open>Sample data\<close>

text \<open>
  A batch of three files on an empty store: the first run passes, launching the second
  raises, the third run fails.
\<close>

lift_definition example_now :: clock is
  "\<lparr>year = 2024, month = 3, day = 15, hour = 9, minute = 5, second = 0\<rparr>"
  by (simp add: valid_datetime_def days_in_month_def)

definition example_env :: "nat \<Rightarrow> run_env" where
  "example_env i =
     \<lparr>log_now = example_now,
      popen = (\<lambda>cmd. if i = 1 then Raised ''robot: command not found''
                     else Completed [''Login'', ''1 test, 1 passed''] (if i = 0 then 0 else 1)),
      save_now = example_now, save_fault = None,
      handler_now = example_now, handler_fault = None\<rparr>"

definition example_paths :: "string list" where
  "example_paths =
     [''temp_uploads/login.robot'', ''temp_uploads/cart.robot'', ''temp_uploads/logout.robot'']"

text \<open>
  A store with a row written 20 days before \<open>example_now\<close>, a row written the day before
  it, and a row without a duration written that day.
\<close>

definition example_aged :: store where
  "example_aged =
     \<lparr>rows =
        [\<lparr>row_id = 1, test_name = Some ''old.robot'',
           execution_date = Some ''2024-02-24 09:05:00'', duration = Some 4,
           status = Some ''Pass''\<rparr>,
         \<lparr>row_id = 2, test_name = Some ''recent.robot'',
           execution_date = Some ''2024-03-14 09:05:00'', duration = Some 3,
           status = Some ''Pass''\<rparr>,
         \<lparr>row_id = 3, test_name = Some ''today.robot'',
           execution_date = Some ''2024-03-15 08:00:00'', duration = None,
           status = Some ''Fail''\<rparr>],
      last_id = 3\<rparr>"

text \<open>A history of two runs, and the same with a row whose texts are all null.\<close>

definition chrome_row :: test_result where
  "chrome_row =
     \<lparr>row_id = 1, test_name = Some ''test_chrome_login'',
      execution_date = Some ''2024-03-14 10:00:00'', duration = Some 12,
      status = Some ''Pass''\<rparr>"

definition firefox_row :: test_result where
  "firefox_row =
     \<lparr>row_id = 2, test_name = Some ''test_firefox_logout'',
      execution_date = Some ''2024-03-15 08:30:00'', duration = Some 7,
      status = Some ''Fail''\<rparr>"

definition null_row :: test_result where
  "null_row =
     \<lparr>row_id = 3, test_name = None, execution_date = None, duration = None, status = None\<rparr>"

text \<open>The clock readings that stamped the two runs.\<close>

lift_definition chrome_time :: clock is
  "\<lparr>year = 2024, month = 3, day = 14, hour = 10, minute = 0, second = 0\<rparr>"
  by (simp add: valid_datetime_def days_in_month_def)

lift_definition firefox_time :: clock is
  "\<lparr>year = 2024, month = 3, day = 15, hour = 8, minute = 30, second = 0\<rparr>"
  by (simp add: valid_datetime_def days_in_month_def)

definition example_history :: store where
  "example_history = \<lparr>rows = [chrome_row, firefox_row], last_id = 2\<rparr>"

definition example_history_null :: store where
  "example_history_null = \<lparr>rows = [chrome_row, firefox_row, null_row], last_id = 3\<rparr>"

text \<open>Three runs on the first of January 2024, two passed and one failed, and one
  passed run on the second.\<close>

definition example_days :: store where
  "example_days =
     \<lparr>rows =
        [\<lparr>row_id = 1, test_name = Some ''a.robot'',
           execution_date = Some ''2024-01-01 09:00:00'', duration = Some 5,
           status = Some ''Pass''\<rparr>,
         \<lparr>row_id = 2, test_name = Some ''b.robot'',
           execution_date = Some ''2024-01-02 10:30:00'', duration = Some 6,
           status = Some ''Pass''\<rparr>,
         \<lparr>row_id = 3, test_name = Some ''c.robot'',
           execution_date = Some ''2024-01-01 17:45:10'', duration = Some 2,
           status = Some ''Fail''\<rparr>,
         \<lparr>row_id = 4, test_name = Some ''a.robot'',
           execution_date = Some ''2024-01-01 23:59:59'', duration = Some 5,
           status = Some ''Pass''\<rparr>],
      last_id = 4\<rparr>"

text \<open>The clock readings that stamped these four rows.\<close>

lift_definition first_day_morning :: clock is
  "\<lparr>year = 2024, month = 1, day = 1, hour = 9, minute = 0, second = 0\<rparr>"
  by (simp add: valid_datetime_def days_in_month_def)

lift_definition second_day_morning :: clock is
  "\<lparr>year = 2024, month = 1, day = 2, hour = 10, minute = 30, second = 0\<rparr>"
  by (simp add: valid_datetime_def days_in_month_def)

lift_definition first_day_evening :: clock is
  "\<lparr>year = 2024, month = 1, day = 1, hour = 17, minute = 45, second = 10\<rparr>"
  by (simp add: valid_datetime_def days_in_month_def)

lift_definition first_day_night :: clock is
  "\<lparr>year = 2024, month = 1, day = 1, hour = 23, minute = 59, second = 59\<rparr>"
  by (simp add: valid_datetime_def days_in_month_def)




section \<open>Verification\<close>

subsection \<open>Timestamps\<close>

text \<open>Digits are ordered as the numbers they print.\<close>

lemma of_char_digit: "of_char (digit n) = (48 + n mod 10 :: nat)"
proof -
  have "n mod 10 < 10" by simp
  then have "48 + n mod 10 < 256" by linarith
  then have "(48 + n mod 10) mod 256 = 48 + n mod 10"
    by (rule mod_less)
  then show ?thesis by (simp add: digit_def)
qed

lemma digit_less_iff: "digit a < digit b \<longleftrightarrow> a mod 10 < b mod 10"
  by (simp only: less_char_def of_char_digit) simp

lemma digit_eq_iff: "digit a = digit b \<longleftrightarrow> a mod 10 = b mod 10"
proof -
  have "digit a = digit b \<longleftrightarrow> (of_char (digit a) :: nat) = of_char (digit b)"
    by simp
  then show ?thesis by (simp only: of_char_digit) simp
qed

lemma is_digit_digit: "is_digit (digit n)"
proof -
  have "(of_char (CHR ''0'') :: nat) = 48" "(of_char (CHR ''9'') :: nat) = 57" by simp_all
  moreover have "n mod 10 < 10" by simp
  ultimately show ?thesis
    unfolding is_digit_def less_eq_char_def of_char_digit by linarith
qed

text \<open>Numbers in base \<open>k\<close> are ordered by their leading part first.\<close>

lemma lex_base:
  fixes x y x' y' k :: nat
  assumes "y < k" "y' < k"
  shows "(k * x + y < k * x' + y') = (x < x' \<or> (x = x' \<and> y < y'))"
proof (cases x x' rule: linorder_cases)
  case less
  then have "k * Suc x \<le> k * x'" by (intro mult_le_mono2) simp
  with assms less show ?thesis by simp
next
  case equal
  then show ?thesis by simp
next
  case greater
  then have "k * Suc x' \<le> k * x" by (intro mult_le_mono2) simp
  with assms greater show ?thesis by simp
qed

lemma eq_base:
  fixes x y x' y' k :: nat
  assumes "y < k" "y' < k"
  shows "(k * x + y = k * x' + y') = (x = x' \<and> y = y')"
  using lex_base [OF assms, of x x'] lex_base [OF assms(2) assms(1), of x' x]
  by (cases "k * x + y" "k * x' + y'" rule: linorder_cases) auto

lemma mod100_split: "(a::nat) mod 100 = 10 * (a div 10 mod 10) + a mod 10"
proof -
  have "a mod 100 = a mod (10 * 10)" by simp
  also have "\<dots> = 10 * (a div 10 mod 10) + a mod 10"
    by (simp only: mod_mult2_eq)
  finally show ?thesis .
qed

lemma pad2_less_iff:
  "pad2 a @ u < pad2 b @ v \<longleftrightarrow> a mod 100 < b mod 100 \<or> (a mod 100 = b mod 100 \<and> u < v)"
proof -
  have "a mod 10 < 10" "b mod 10 < 10" by simp_all
  then show ?thesis
    unfolding pad2_def mod100_split [of a] mod100_split [of b]
    by (simp add: digit_less_iff digit_eq_iff lex_base eq_base) blast
qed

lemma pad2_eq_iff: "pad2 a = pad2 b \<longleftrightarrow> a mod 100 = b mod 100"
proof -
  have "a mod 10 < 10" "b mod 10 < 10" by simp_all
  then show ?thesis
    unfolding pad2_def mod100_split [of a] mod100_split [of b]
    by (simp add: digit_eq_iff eq_base)
qed


lemma mod10000_split: "(a::nat) mod 10000 = 100 * (a div 100 mod 100) + a mod 100"
proof -
  have "a mod 10000 = a mod (100 * 100)" by simp
  also have "\<dots> = 100 * (a div 100 mod 100) + a mod 100"
    by (simp only: mod_mult2_eq)
  finally show ?thesis .
qed

lemma pad4_less_iff:
  "pad4 a @ u < pad4 b @ v \<longleftrightarrow> a mod 10000 < b mod 10000 \<or> (a mod 10000 = b mod 10000 \<and> u < v)"
proof -
  have "a mod 100 < 100" "b mod 100 < 100" by simp_all
  then show ?thesis
    unfolding pad4_def mod10000_split [of a] mod10000_split [of b]
    by (simp add: pad2_less_iff lex_base eq_base) blast
qed

lemma list_all_is_digit_pad2: "list_all is_digit (pad2 n)"
  by (simp add: pad2_def is_digit_digit)

lemma length_pad2: "length (pad2 n) = 2"
  by (simp add: pad2_def)


text \<open>From the year 1000 on \<^verbatim>\<open>%Y\<close> prints four digits, before it fewer.\<close>

lemma decimal_four:
  assumes "1000 \<le> y" "y \<le> 9999"
  shows "decimal y = pad4 y"
proof -
  from assms have "\<not> y < 10" "\<not> y div 10 < 10" "\<not> y div 100 < 10" "y div 1000 < 10"
    by simp_all
  moreover have "y div 10 div 10 = y div 100" "y div 100 div 10 = y div 1000"
    by (simp_all add: div_mult2_eq [symmetric])
  ultimately show ?thesis
    by (simp add: decimal.simps [of y] decimal.simps [of "y div 10"]
        decimal.simps [of "y div 100"] decimal.simps [of "y div 1000"] pad4_def pad2_def)
qed

lemma decimal_three:
  assumes "100 \<le> y" "y \<le> 999"
  shows "decimal y = digit (y div 100) # pad2 y"
proof -
  from assms have "\<not> y < 10" "\<not> y div 10 < 10" "y div 100 < 10"
    by simp_all
  moreover have "y div 10 div 10 = y div 100"
    by (simp add: div_mult2_eq [symmetric])
  ultimately show ?thesis
    by (simp add: decimal.simps [of y] decimal.simps [of "y div 10"]
        decimal.simps [of "y div 100"] pad2_def)
qed

lemma timestamp_four:
  assumes "1000 \<le> year d" "year d \<le> 9999"
  shows "timestamp d =
     pad4 (year d) @ CHR ''-'' # pad2 (month d) @ CHR ''-'' # pad2 (day d) @ CHR '' '' #
     pad2 (hour d) @ CHR '':'' # pad2 (minute d) @ CHR '':'' # pad2 (second d)"
  by (simp add: timestamp_def strftime_def decimal_four [OF assms])

text \<open>What a clock reads is a datetime of a year of four digits.\<close>

lemma clock_valid: "valid_datetime (reading c)"
  using reading [of c] by simp

lemma clock_year: "1000 \<le> year (reading c)" "year (reading c) \<le> 9999"
  using reading [of c] by (simp_all add: valid_datetime_def)

text \<open>
  The texts of two datetimes of years of four digits are ordered as the datetimes are:
  there SQLite's comparison of the \<^verbatim>\<open>execution_date\<close> column with a threshold is a
  comparison of times.
\<close>

lemma pad2_less_iff_plain: "pad2 a < pad2 b \<longleftrightarrow> a mod 100 < b mod 100"
  using pad2_less_iff [of a "[]" b "[]"] by simp

lemma days_in_month_le: "days_in_month y m \<le> 31"
  by (simp add: days_in_month_def)

lemma valid_datetime_bounds:
  assumes "valid_datetime d"
  shows "year d mod 10000 = year d" "month d mod 100 = month d" "day d mod 100 = day d"
    "hour d mod 100 = hour d" "minute d mod 100 = minute d" "second d mod 100 = second d"
proof -
  from assms have "day d \<le> days_in_month (year d) (month d)"
    by (simp add: valid_datetime_def)
  with days_in_month_le [of "year d" "month d"] have "day d \<le> 31" by linarith
  with assms show "year d mod 10000 = year d" "month d mod 100 = month d" "day d mod 100 = day d"
    "hour d mod 100 = hour d" "minute d mod 100 = minute d" "second d mod 100 = second d"
    by (simp_all add: valid_datetime_def)
qed

lemma valid_datetime_year: "valid_datetime d \<Longrightarrow> year d \<le> 9999"
  by (simp add: valid_datetime_def)

lemma timestamp_less_iff:
  assumes "valid_datetime a" "valid_datetime b" "1000 \<le> year a" "1000 \<le> year b"
  shows "timestamp a < timestamp b \<longleftrightarrow> before a b"
  unfolding timestamp_four [OF assms(3) valid_datetime_year [OF assms(1)]]
    timestamp_four [OF assms(4) valid_datetime_year [OF assms(2)]] before_def
  by (simp add: pad4_less_iff pad2_less_iff pad2_less_iff_plain
      valid_datetime_bounds [OF assms(1)] valid_datetime_bounds [OF assms(2)])

lemma before_irrefl: "\<not> before a a"
  by (simp add: before_def)

lemma before_total: "before a b \<or> before b a \<or> datetime.truncate a = datetime.truncate b"
  by (auto simp: before_def datetime.truncate_def)

lemma timestamp_le_iff:
  assumes "valid_datetime a" "valid_datetime b" "1000 \<le> year a" "1000 \<le> year b"
  shows "timestamp a \<le> timestamp b \<longleftrightarrow> \<not> before b a"
  using timestamp_less_iff [OF assms(2) assms(1) assms(4) assms(3)]
  by (simp add: not_less [symmetric])

lemma clock_less_iff: "timestamp (reading a) < timestamp (reading b) \<longleftrightarrow> before (reading a) (reading b)"
  by (rule timestamp_less_iff [OF clock_valid clock_valid clock_year(1) clock_year(1)])

lemma clock_le_iff: "timestamp (reading a) \<le> timestamp (reading b) \<longleftrightarrow> \<not> before (reading b) (reading a)"
  by (rule timestamp_le_iff [OF clock_valid clock_valid clock_year(1) clock_year(1)])

text \<open>A timestamp of a year of four digits, so every timestamp of a clock reading, has
  the shape \<^verbatim>\<open>YYYY-MM-DD HH:MM:SS\<close>.\<close>

lemma length_pad4: "length (pad4 n) = 4"
  by (simp add: pad4_def pad2_def)

lemma timestamp_format_four:
  assumes "1000 \<le> year d" "year d \<le> 9999"
  shows "timestamp_format (timestamp d)"
  unfolding timestamp_format_def timestamp_four [OF assms] pad4_def pad2_def
  by (simp add: is_digit_digit)

lemma timestamp_format_timestamp: "timestamp_format (timestamp (reading c))"
  by (rule timestamp_format_four [OF clock_year])


text \<open>
  Going back a day gives an earlier datetime, so going back \<open>n\<close> days gives a datetime
  before the one \<open>days\<close> days back exactly when \<open>n\<close> is more than \<open>days\<close>.
\<close>

lemma days_in_month_ge: "1 \<le> days_in_month y m"
  by (simp add: days_in_month_def)

lemma prev_day_Some:
  assumes "valid_datetime d" "prev_day d = Some e"
  shows "valid_datetime e \<and> before e d"
proof -
  have "days_in_month (year d - 1) 12 = 31"
    by (simp add: days_in_month_def)
  with assms days_in_month_ge [of "year d" "month d - 1"] show ?thesis
    unfolding prev_day_def valid_datetime_def before_def
    by (auto split: if_splits)
qed

lemma next_day_Some:
  assumes "valid_datetime d" "next_day d = Some e"
  shows "valid_datetime e \<and> before d e"
  using assms days_in_month_ge [of "year d" "month d + 1"] days_in_month_ge [of "year d + 1" 1]
  unfolding next_day_def valid_datetime_def before_def
  by (auto split: if_splits)

lemma before_fields:
  "before a b \<longleftrightarrow>
   [year a, month a, day a, hour a, minute a, second a] <
   [year b, month b, day b, hour b, minute b, second b]"
  by (simp add: before_def)

lemma before_trans:
  assumes "valid_datetime a" "valid_datetime b" "valid_datetime c" "before a b" "before b c"
  shows "before a c"
  using assms(4,5) unfolding before_fields by (rule less_trans)

lemma before_asym:
  assumes "valid_datetime a" "valid_datetime b" "before a b"
  shows "\<not> before b a"
  using assms(3) unfolding before_fields by (rule less_not_sym)

lemma iterate_add:
  "iterate (m + n) f x = (case iterate m f x of None \<Rightarrow> None | Some y \<Rightarrow> iterate n f y)"
  by (induction m arbitrary: x) (auto split: option.splits)

lemma iterate_prev_day:
  assumes "valid_datetime d" "iterate k prev_day d = Some e"
  shows "valid_datetime e \<and> (if k = 0 then e = d else before e d)"
  using assms
proof (induction k arbitrary: d)
  case 0
  then show ?case by simp
next
  case (Suc k)
  from Suc.prems obtain d1 where d1: "prev_day d = Some d1" and rest: "iterate k prev_day d1 = Some e"
    by (auto split: option.splits)
  from prev_day_Some [OF Suc.prems(1) d1] have v1: "valid_datetime d1" and b1: "before d1 d"
    by simp_all
  from Suc.IH [OF v1 rest] have ve: "valid_datetime e" and
    step: "if k = 0 then e = d1 else before e d1" by simp_all
  have "before e d"
  proof (cases "k = 0")
    case True
    with step b1 show ?thesis by simp
  next
    case False
    with step have "before e d1" by simp
    from before_trans [OF ve v1 Suc.prems(1) this b1] show ?thesis .
  qed
  with ve show ?case by simp
qed

lemma minus_days_age:
  assumes now: "valid_datetime now" and n: "0 \<le> n" and days: "0 \<le> days"
    and e: "minus_days now n = Some e" and t: "minus_days now days = Some t"
  shows "valid_datetime e \<and> valid_datetime t \<and> (before e t \<longleftrightarrow> days < n)"
proof -
  from e n have ie: "iterate (nat n) prev_day now = Some e" by (simp add: minus_days_def)
  from t days have it: "iterate (nat days) prev_day now = Some t" by (simp add: minus_days_def)
  from iterate_prev_day [OF now ie] have ve: "valid_datetime e" by simp
  from iterate_prev_day [OF now it] have vt: "valid_datetime t" by simp
  have "before e t \<longleftrightarrow> days < n"
  proof (cases "days < n")
    case True
    then have "nat n = nat days + (nat n - nat days)" "nat n - nat days \<noteq> 0"
      using days by simp_all
    with ie it have "iterate (nat n - nat days) prev_day t = Some e"
      using iterate_add [of "nat days" "nat n - nat days" prev_day now] by simp
    from iterate_prev_day [OF vt this] \<open>nat n - nat days \<noteq> 0\<close> have "before e t" by simp
    with True show ?thesis by simp
  next
    case False
    then have split: "nat days = nat n + (nat days - nat n)"
      using n by simp
    with ie it have "iterate (nat days - nat n) prev_day e = Some t"
      using iterate_add [of "nat n" "nat days - nat n" prev_day now] by simp
    from iterate_prev_day [OF ve this] have "t = e \<or> before t e"
      by (simp split: if_splits)
    then have "\<not> before e t"
      using before_asym [OF vt ve] before_irrefl by auto
    with False show ?thesis by simp
  qed
  with ve vt show ?thesis by simp
qed

subsection \<open>Day numbers\<close>




















subsection \<open>The run orchestrator\<close>

text \<open>What one iteration does, by what it met outside.\<close>

lemma save_test_result_ok:
  "save_test_result now None name dur stat st =
     Inr \<lparr>rows = rows st @ [\<lparr>row_id = next_id st, test_name = name,
            execution_date = Some (timestamp (reading now)), duration = Some dur, status = stat\<rparr>],
          last_id = next_id st\<rparr>"
  by (simp add: save_test_result_def)

lemma save_test_result_Inr:
  "save_test_result now fault name dur stat st = Inr st' \<Longrightarrow>
   fault = None \<and> rows st' = rows st @ [\<lparr>row_id = next_id st, test_name = name,
            execution_date = Some (timestamp (reading now)), duration = Some dur, status = stat\<rparr>]"
  by (auto simp: save_test_result_def split: option.splits)

lemma save_test_result_Inl:
  "save_test_result now fault name dur stat st = Inl e \<Longrightarrow> \<exists>msg. fault = Some msg \<and> e = OperationalError msg"
  by (auto simp: save_test_result_def split: option.splits)

lemma run_one_Completed:
  "popen env (robot_cmd (log_now env) b p) = Completed ls rc \<Longrightarrow> save_fault env = None \<Longrightarrow>
   run_one env b p st =
     (Inr (basename p, (if rc = 0 then ''Pass'' else ''Fail''), join ''\<newline>'' ls),
      \<lparr>rows = rows st @ [\<lparr>row_id = next_id st, test_name = Some (basename p),
         execution_date = Some (timestamp (reading (save_now env))), duration = Some (real (length ls)),
         status = Some (if rc = 0 then ''Pass'' else ''Fail'')\<rparr>],
       last_id = next_id st\<rparr>)"
  by (simp add: run_one_def try_run_def Let_def save_test_result_ok)

lemma run_one_Raised:
  "popen env (robot_cmd (log_now env) b p) = Raised msg \<Longrightarrow> handler_fault env = None \<Longrightarrow>
   run_one env b p st =
     (Inr (basename p, ''Fail'', msg),
      \<lparr>rows = rows st @ [\<lparr>row_id = next_id st, test_name = Some (basename p),
         execution_date = Some (timestamp (reading (handler_now env))), duration = Some 0,
         status = Some ''Fail''\<rparr>],
       last_id = next_id st\<rparr>)"
  by (simp add: run_one_def try_run_def Let_def save_test_result_ok)

lemma run_one_save_fault:
  "popen env (robot_cmd (log_now env) b p) = Completed ls rc \<Longrightarrow> save_fault env = Some msg \<Longrightarrow>
   handler_fault env = None \<Longrightarrow>
   run_one env b p st =
     (Inr (basename p, ''Fail'', msg),
      \<lparr>rows = rows st @ [\<lparr>row_id = next_id st, test_name = Some (basename p),
         execution_date = Some (timestamp (reading (handler_now env))), duration = Some 0,
         status = Some ''Fail''\<rparr>],
       last_id = next_id st\<rparr>)"
  by (simp add: run_one_def try_run_def Let_def save_test_result_ok save_test_result_def)

lemma run_one_abort:
  "handler_fault env = Some m \<Longrightarrow>
   popen env (robot_cmd (log_now env) b p) = Raised msg \<or>
   (popen env (robot_cmd (log_now env) b p) = Completed ls rc \<and> save_fault env = Some msg) \<Longrightarrow>
   run_one env b p st = (Inl (OperationalError m), st)"
  by (auto simp add: run_one_def try_run_def Let_def save_test_result_def)

lemma run_one_cases:
  obtains
    (completed) ls rc where "popen env (robot_cmd (log_now env) b p) = Completed ls rc"
      "save_fault env = None"
  | (raised) msg where "popen env (robot_cmd (log_now env) b p) = Raised msg"
      "handler_fault env = None"
  | (save_fault) ls rc msg where "popen env (robot_cmd (log_now env) b p) = Completed ls rc"
      "save_fault env = Some msg" "handler_fault env = None"
  | (abort) m msg ls rc where "handler_fault env = Some m"
      "popen env (robot_cmd (log_now env) b p) = Raised msg \<or>
       (popen env (robot_cmd (log_now env) b p) = Completed ls rc \<and> save_fault env = Some msg)"
  by (cases "popen env (robot_cmd (log_now env) b p)"; cases "save_fault env";
      cases "handler_fault env") auto

lemma run_one_Inr:
  assumes "run_one env b p st = (Inr res, st')"
  shows "\<exists>row. rows st' = rows st @ [row]"
proof (cases rule: run_one_cases [of env b p])
  case (completed ls rc)
  from run_one_Completed [OF this, of st] assms show ?thesis by auto
next
  case (raised msg)
  from run_one_Raised [OF this, of st] assms show ?thesis by auto
next
  case (save_fault ls rc msg)
  from run_one_save_fault [OF this, of st] assms show ?thesis by auto
next
  case (abort m msg ls rc)
  from run_one_abort [OF this, of st] assms show ?thesis by simp
qed

lemma run_one_no_abort:
  assumes "handler_fault env = None"
  shows "\<exists>res st'. run_one env b p st = (Inr res, st')"
proof (cases rule: run_one_cases [of env b p])
  case (completed ls rc)
  from run_one_Completed [OF this, of st] show ?thesis by blast
next
  case (raised msg)
  from run_one_Raised [OF this, of st] show ?thesis by blast
next
  case (save_fault ls rc msg)
  from run_one_save_fault [OF this, of st] show ?thesis by blast
next
  case (abort m msg ls rc)
  with assms show ?thesis by simp
qed

text \<open>
  A batch that returns has one result and one new row for each file, each made by one
  iteration; a batch in which no handler meets a database fault returns.
\<close>

lemma run_loop_Inr:
  "run_loop env b i ps acc st = (Inr results, st') \<Longrightarrow>
   \<exists>rs news. results = acc @ rs \<and> rows st' = rows st @ news \<and>
     length rs = length ps \<and> length news = length ps \<and>
     (\<forall>j<length ps. \<exists>sj sj'. run_one (env (i + j)) b (ps ! j) sj = (Inr (rs ! j), sj') \<and>
        rows sj' = rows sj @ [news ! j])"
proof (induction ps arbitrary: i acc st)
  case Nil
  then show ?case by simp
next
  case (Cons p ps)
  from Cons.prems obtain res st1 where
    one: "run_one (env i) b p st = (Inr res, st1)" and
    rest: "run_loop env b (Suc i) ps (acc @ [res]) st1 = (Inr results, st')"
    by (auto split: prod.splits sum.splits)
  from run_one_Inr [OF one] obtain row where row: "rows st1 = rows st @ [row]"
    by blast
  from Cons.IH [OF rest] obtain rs news where
    ih: "results = (acc @ [res]) @ rs" "rows st' = rows st1 @ news"
        "length rs = length ps" "length news = length ps"
        "\<forall>j<length ps. \<exists>sj sj'. run_one (env (Suc i + j)) b (ps ! j) sj = (Inr (rs ! j), sj') \<and>
            rows sj' = rows sj @ [news ! j]"
    by blast
  have "\<forall>j<length (p # ps). \<exists>sj sj'.
          run_one (env (i + j)) b ((p # ps) ! j) sj = (Inr ((res # rs) ! j), sj') \<and>
          rows sj' = rows sj @ [(row # news) ! j]"
  proof (intro allI impI)
    fix j assume j: "j < length (p # ps)"
    show "\<exists>sj sj'. run_one (env (i + j)) b ((p # ps) ! j) sj = (Inr ((res # rs) ! j), sj') \<and>
          rows sj' = rows sj @ [(row # news) ! j]"
    proof (cases j)
      case 0
      with one row show ?thesis by auto
    next
      case (Suc k)
      with j ih(5) show ?thesis by auto
    qed
  qed
  with ih row show ?case
    by (intro exI [of _ "res # rs"] exI [of _ "row # news"]) simp
qed

lemma run_loop_total:
  "\<forall>j<length ps. handler_fault (env (i + j)) = None \<Longrightarrow>
   \<exists>results st'. run_loop env b i ps acc st = (Inr results, st')"
proof (induction ps arbitrary: i acc st)
  case Nil
  then show ?case by simp
next
  case (Cons p ps)
  from Cons.prems have "handler_fault (env i) = None" by auto
  from run_one_no_abort [OF this] obtain res st1 where
    one: "run_one (env i) b p st = (Inr res, st1)" by blast
  from Cons.prems have "\<forall>j<length ps. handler_fault (env (Suc i + j)) = None" by auto
  from Cons.IH [OF this] obtain results st' where
    "run_loop env b (Suc i) ps (acc @ [res]) st1 = (Inr results, st')" by blast
  with one show ?case by simp
qed


lemma run_one_Inr_facts:
  assumes run: "run_one env b p sj = (Inr res, sj')" and row: "rows sj' = rows sj @ [row]"
  shows "fst res = basename p \<and> test_name row = Some (basename p) \<and>
     status row = Some (fst (snd res)) \<and>
     (\<forall>msg. popen env (robot_cmd (log_now env) b p) = Raised msg \<longrightarrow>
        res = (basename p, ''Fail'', msg) \<and> duration row = Some 0) \<and>
     (\<forall>ls rc. popen env (robot_cmd (log_now env) b p) = Completed ls rc \<longrightarrow>
        save_fault env = None \<longrightarrow>
        res = (basename p, (if rc = 0 then ''Pass'' else ''Fail''), join ''\<newline>'' ls) \<and>
        duration row = Some (real (length ls))) \<and>
     (\<exists>d. duration row = Some d \<and> 0 \<le> d) \<and>
     (fst (snd res) = ''Pass'' \<or> fst (snd res) = ''Fail'') \<and>
     (execution_date row = Some (timestamp (reading (save_now env))) \<or>
      execution_date row = Some (timestamp (reading (handler_now env))))"
proof (cases rule: run_one_cases [of env b p])
  case (completed ls rc)
  from run_one_Completed [OF this, of sj] run row show ?thesis
    using completed by auto
next
  case (raised msg)
  from run_one_Raised [OF this, of sj] run row show ?thesis
    using raised by auto
next
  case (save_fault ls rc msg)
  from run_one_save_fault [OF this, of sj] run row show ?thesis
    using save_fault by auto
next
  case (abort m msg ls rc)
  from run_one_abort [OF this, of sj] run show ?thesis by simp
qed

text \<open>
  C1. When no handler's own \<^verbatim>\<open>save_test_result\<close> meets a database fault, the batch
  returns, with one result triple and one new row for each input file, in the order of
  the files and after the rows that were there. For a file whose child process raised,
  the triple is the file's base name, \<^verbatim>\<open>Fail\<close> and the text of the exception, and the row
  has status \<^verbatim>\<open>Fail\<close> and duration 0; the files after it are run all the same.
\<close>

theorem run_robot_tests_isolates_faults:
  assumes "\<forall>j<length file_paths. handler_fault (env j) = None"
  shows "\<exists>results st' news.
     run_robot_tests env file_paths browser st = (Inr results, st') \<and>
     rows st' = rows st @ news \<and>
     length results = length file_paths \<and> length news = length file_paths \<and>
     (\<forall>j<length file_paths.
        fst (results ! j) = basename (file_paths ! j) \<and>
        test_name (news ! j) = Some (basename (file_paths ! j)) \<and>
        (\<forall>msg. popen (env j) (robot_cmd (log_now (env j)) (or_default browser ''chrome'')
                  (file_paths ! j)) = Raised msg \<longrightarrow>
           results ! j = (basename (file_paths ! j), ''Fail'', msg) \<and>
           status (news ! j) = Some ''Fail'' \<and> duration (news ! j) = Some 0))"
proof -
  let ?b = "or_default browser ''chrome''"
  from assms have "\<forall>j<length file_paths. handler_fault (env (0 + j)) = None" by simp
  from run_loop_total [OF this] obtain results st' where
    run: "run_loop env ?b 0 file_paths [] st = (Inr results, st')" by blast
  from run_loop_Inr [OF run] obtain rs news where
    rs: "results = rs" "rows st' = rows st @ news"
      "length rs = length file_paths" "length news = length file_paths" and
    each: "\<forall>j<length file_paths. \<exists>sj sj'.
        run_one (env (0 + j)) ?b (file_paths ! j) sj = (Inr (rs ! j), sj') \<and>
        rows sj' = rows sj @ [news ! j]"
    by auto
  have "\<forall>j<length file_paths.
        fst (results ! j) = basename (file_paths ! j) \<and>
        test_name (news ! j) = Some (basename (file_paths ! j)) \<and>
        (\<forall>msg. popen (env j) (robot_cmd (log_now (env j)) ?b (file_paths ! j)) = Raised msg \<longrightarrow>
           results ! j = (basename (file_paths ! j), ''Fail'', msg) \<and>
           status (news ! j) = Some ''Fail'' \<and> duration (news ! j) = Some 0)"
  proof (intro allI impI)
    fix j assume "j < length file_paths"
    with each obtain sj sj' where
      one: "run_one (env j) ?b (file_paths ! j) sj = (Inr (rs ! j), sj')" and
      row: "rows sj' = rows sj @ [news ! j]"
      by auto
    from run_one_Inr_facts [OF one row] rs(1)
    show "fst (results ! j) = basename (file_paths ! j) \<and>
        test_name (news ! j) = Some (basename (file_paths ! j)) \<and>
        (\<forall>msg. popen (env j) (robot_cmd (log_now (env j)) ?b (file_paths ! j)) = Raised msg \<longrightarrow>
           results ! j = (basename (file_paths ! j), ''Fail'', msg) \<and>
           status (news ! j) = Some ''Fail'' \<and> duration (news ! j) = Some 0)"
      by auto
  qed
  with run rs show ?thesis
    unfolding run_robot_tests_def by blast
qed




text \<open>C1 on the sample batch, whose second file cannot be launched.\<close>

theorem run_robot_tests_isolates_faults_witness:
  "length example_paths = 3 \<and> handler_fault (example_env 0) = None \<and>
   handler_fault (example_env 1) = None \<and> handler_fault (example_env 2) = None \<and>
   (\<exists>results st' news.
     run_robot_tests example_env example_paths None init_db = (Inr results, st') \<and>
     rows st' = rows init_db @ news \<and>
     length results = length example_paths \<and> length news = length example_paths \<and>
     (\<forall>j<length example_paths.
        fst (results ! j) = basename (example_paths ! j) \<and>
        test_name (news ! j) = Some (basename (example_paths ! j)) \<and>
        (\<forall>msg. popen (example_env j) (robot_cmd (log_now (example_env j)) (or_default None ''chrome'')
                  (example_paths ! j)) = Raised msg \<longrightarrow>
           results ! j = (basename (example_paths ! j), ''Fail'', msg) \<and>
           status (news ! j) = Some ''Fail'' \<and> duration (news ! j) = Some 0)))"
proof -
  have h: "\<forall>j<length example_paths. handler_fault (example_env j) = None"
    by (simp add: example_env_def)
  have len: "length example_paths = 3"
    by (simp add: example_paths_def)
  have ok: "handler_fault (example_env 0) = None \<and>
   handler_fault (example_env 1) = None \<and> handler_fault (example_env 2) = None"
    by (simp add: example_env_def)
  from run_robot_tests_isolates_faults [OF h, of None init_db] len ok show ?thesis
    by blast
qed




subsection \<open>The retention sweep\<close>

text \<open>The threshold of a sweep or of a KPI window is a datetime Python can hold.\<close>

lemma next_day_iterate:
  assumes "valid_datetime d" "iterate k next_day d = Some e"
  shows "valid_datetime e"
  using assms
proof (induction k arbitrary: d)
  case 0
  then show ?case by simp
next
  case (Suc k)
  from Suc.prems obtain d1 where d1: "next_day d = Some d1" and rest: "iterate k next_day d1 = Some e"
    by (auto split: option.splits)
  from next_day_Some [OF Suc.prems(1) d1] have "valid_datetime d1" by simp
  from Suc.IH [OF this rest] show ?case .
qed

lemma minus_days_valid:
  assumes "valid_datetime now" "minus_days now n = Some t"
  shows "valid_datetime t"
proof (cases "0 \<le> n")
  case True
  with assms(2) have "iterate (nat n) prev_day now = Some t" by (simp add: minus_days_def)
  from iterate_prev_day [OF assms(1) this] show ?thesis by simp
next
  case False
  with assms(2) have "iterate (nat (- n)) next_day now = Some t" by (simp add: minus_days_def)
  from next_day_iterate [OF assms(1) this] show ?thesis .
qed

text \<open>A comparison that \<^verbatim>\<open>WHERE\<close> accepts is one of a text that is there.\<close>

lemma sql_true_lt: "sql_true (sql_lt a (Some t)) \<longleftrightarrow> (\<exists>x. a = Some x \<and> x < t)"
  by (cases a) (simp_all add: sql_true_def sql_lt_def)

lemma sql_true_ge: "sql_true (sql_ge a (Some t)) \<longleftrightarrow> (\<exists>x. a = Some x \<and> t \<le> x)"
  by (cases a) (simp_all add: sql_true_def sql_ge_def)

lemma delete_old_tests_Some:
  "minus_days (reading now) (or_default days 10) = Some since \<Longrightarrow>
   delete_old_tests now days st =
     Inr (st\<lparr>rows := filter (\<lambda>r. \<not> (\<exists>x. execution_date r = Some x \<and> x < timestamp since)) (rows st)\<rparr>)"
  by (simp add: delete_old_tests_def sql_true_lt)

text \<open>
  When the threshold date \<open>now - days\<close> exists, \<^verbatim>\<open>delete_old_tests\<close> keeps, in their order
  and unchanged, exactly the rows whose \<^verbatim>\<open>execution_date\<close> is not a text below the
  threshold's timestamp, and removes the others. When the threshold is of the year 1000
  or later, this means for a row stamped by the clock: it is removed exactly when its
  datetime is strictly before the threshold; and a row stamped \<open>n\<close> days before \<open>now\<close> is
  kept exactly when \<open>n\<close> is at most \<open>days\<close>, so that with 10 days a row 20 days old goes
  and a row one day old stays.
\<close>

lemma delete_old_tests_four_digit_year:
  assumes since: "minus_days (reading now) (or_default days 10) = Some since"
  shows "\<exists>st'. delete_old_tests now days st = Inr st' \<and> last_id st' = last_id st \<and>
     rows st' = filter (\<lambda>r. \<not> (\<exists>x. execution_date r = Some x \<and> x < timestamp since)) (rows st) \<and>
     (1000 \<le> year since \<longrightarrow>
      (\<forall>r \<in> set (rows st). \<forall>c. execution_date r = Some (timestamp (reading c)) \<longrightarrow>
         (r \<in> set (rows st') \<longleftrightarrow> \<not> before (reading c) since))) \<and>
     (1000 \<le> year since \<longrightarrow>
      (\<forall>r \<in> set (rows st). \<forall>n c. 0 \<le> or_default days 10 \<longrightarrow> 0 \<le> n \<longrightarrow>
         minus_days (reading now) n = Some (reading c) \<longrightarrow>
         execution_date r = Some (timestamp (reading c)) \<longrightarrow>
         (r \<in> set (rows st') \<longleftrightarrow> n \<le> or_default days 10)))"
proof -
  let ?st' = "st\<lparr>rows := filter (\<lambda>r. \<not> (\<exists>x. execution_date r = Some x \<and> x < timestamp since)) (rows st)\<rparr>"
  have run: "delete_old_tests now days st = Inr ?st'"
    by (rule delete_old_tests_Some [OF since])
  have valid: "valid_datetime since"
    by (rule minus_days_valid [OF clock_valid since])
  have chrono: "r \<in> set (rows ?st') \<longleftrightarrow> \<not> before (reading c) since"
    if "1000 \<le> year since" "r \<in> set (rows st)"
      "execution_date r = Some (timestamp (reading c))" for r c
    using timestamp_less_iff [OF clock_valid valid clock_year(1) that(1), of c] that(2,3)
    by simp
  have age: "r \<in> set (rows ?st') \<longleftrightarrow> n \<le> or_default days 10"
    if "1000 \<le> year since" "r \<in> set (rows st)" "0 \<le> or_default days 10" "0 \<le> n"
      "minus_days (reading now) n = Some (reading c)"
      "execution_date r = Some (timestamp (reading c))" for r n c
  proof -
    from minus_days_age [OF clock_valid that(4) that(3) that(5) since]
    have "before (reading c) since \<longleftrightarrow> or_default days 10 < n" by simp
    with chrono [OF that(1) that(2) that(6)] show ?thesis by auto
  qed
  have c2: "last_id ?st' = last_id st" by simp
  have c3: "rows ?st' =
      filter (\<lambda>r. \<not> (\<exists>x. execution_date r = Some x \<and> x < timestamp since)) (rows st)"
    by simp
  have c4: "1000 \<le> year since \<longrightarrow>
      (\<forall>r \<in> set (rows st). \<forall>c. execution_date r = Some (timestamp (reading c)) \<longrightarrow>
         (r \<in> set (rows ?st') \<longleftrightarrow> \<not> before (reading c) since))"
    using chrono by blast
  have c5: "1000 \<le> year since \<longrightarrow>
      (\<forall>r \<in> set (rows st). \<forall>n c. 0 \<le> or_default days 10 \<longrightarrow> 0 \<le> n \<longrightarrow>
         minus_days (reading now) n = Some (reading c) \<longrightarrow>
         execution_date r = Some (timestamp (reading c)) \<longrightarrow>
         (r \<in> set (rows ?st') \<longleftrightarrow> n \<le> or_default days 10))"
    using age by blast
  show ?thesis
    by (intro exI [of _ ?st'] conjI run c2 c3 c4 c5)
qed

text \<open>The sample store swept at the sample clock with 10 days: only the row of 20 days
  before goes.\<close>

lemma example_sweep:
  "delete_old_tests example_now (Some 10) example_aged =
     Inr \<lparr>rows = tl (rows example_aged), last_id = 3\<rparr>"
  by code_simp






subsection \<open>The KPI summary\<close>

text \<open>The comprehensions over the fetched pairs, read on the rows themselves.\<close>

lemma count_ones: "sum_list (map (\<lambda>_. Suc 0) xs) = length xs"
  by (induction xs) simp_all

lemma map_filter_fst_pairs:
  "List.map_filter fst (map (\<lambda>r. (duration r, status r)) xs) = List.map_filter duration xs"
  by (induction xs) (simp_all add: List.map_filter_def)

lemma filter_pass_pairs:
  "length (filter (\<lambda>(_, s). s = Some ''Pass'') (map (\<lambda>r. (duration r, status r)) xs)) =
   length (filter (\<lambda>r. status r = Some ''Pass'') xs)"
  by (induction xs) simp_all

lemma get_kpis_Some:
  assumes "minus_days (reading now) (or_default days 7) = Some since"
  shows "get_kpis now days st =
     (let window = filter (\<lambda>r. \<exists>x. execution_date r = Some x \<and> timestamp since \<le> x) (rows st);
          durations = List.map_filter duration window
      in Inr (length window,
              (if length window = 0 then 0
               else real (length (filter (\<lambda>r. status r = Some ''Pass'') window)) /
                    real (length window) * 100),
              (if durations = [] then 0 else sum_list durations / real (length durations))))"
  using assms
  by (simp add: get_kpis_def Let_def sql_true_ge count_ones map_filter_fst_pairs
      filter_pass_pairs mean_def truediv_def comp_def del: filter_filter)

text \<open>
  When the start of the window \<open>now - days\<close> exists, \<^verbatim>\<open>get_kpis\<close> returns and raises
  neither \<^verbatim>\<open>ZeroDivisionError\<close> nor \<^verbatim>\<open>StatisticsError\<close>: the total is the number of rows
  whose \<^verbatim>\<open>execution_date\<close> is a text at or above the timestamp of that start, the rate
  is the number of those with status \<^verbatim>\<open>Pass\<close> over the total times 100, or 0 when the
  total is 0, and the average is the mean of their durations that are not null, or 0
  when there is none. When that start is of the year 1000 or later, a row stamped by the
  clock is in the window exactly when its datetime is not before the start, and a row
  stamped \<open>n\<close> days before \<open>now\<close> exactly when \<open>n\<close> is at most \<open>days\<close>.
\<close>

lemma get_kpis_four_digit_year:
  assumes since: "minus_days (reading now) (or_default days 7) = Some since"
  shows "let window = filter (\<lambda>r. \<exists>x. execution_date r = Some x \<and> timestamp since \<le> x) (rows st);
          durations = List.map_filter duration window
      in get_kpis now days st =
           Inr (length window,
              (if length window = 0 then 0
               else real (length (filter (\<lambda>r. status r = Some ''Pass'') window)) /
                    real (length window) * 100),
              (if durations = [] then 0 else sum_list durations / real (length durations))) \<and>
         (1000 \<le> year since \<longrightarrow>
          (\<forall>r \<in> set (rows st). \<forall>c. execution_date r = Some (timestamp (reading c)) \<longrightarrow>
            (r \<in> set window \<longleftrightarrow> \<not> before (reading c) since))) \<and>
         (1000 \<le> year since \<longrightarrow>
          (\<forall>r \<in> set (rows st). \<forall>n c. 0 \<le> or_default days 7 \<longrightarrow> 0 \<le> n \<longrightarrow>
            minus_days (reading now) n = Some (reading c) \<longrightarrow>
            execution_date r = Some (timestamp (reading c)) \<longrightarrow>
            (r \<in> set window \<longleftrightarrow> n \<le> or_default days 7)))"
proof -
  define window where
    "window = filter (\<lambda>r. \<exists>x. execution_date r = Some x \<and> timestamp since \<le> x) (rows st)"
  have valid: "valid_datetime since"
    by (rule minus_days_valid [OF clock_valid since])
  have chrono: "r \<in> set window \<longleftrightarrow> \<not> before (reading c) since"
    if "1000 \<le> year since" "r \<in> set (rows st)"
      "execution_date r = Some (timestamp (reading c))" for r c
    using timestamp_le_iff [OF valid clock_valid that(1) clock_year(1), of c] that(2,3)
    by (simp add: window_def)
  have age: "r \<in> set window \<longleftrightarrow> n \<le> or_default days 7"
    if "1000 \<le> year since" "r \<in> set (rows st)" "0 \<le> or_default days 7" "0 \<le> n"
      "minus_days (reading now) n = Some (reading c)"
      "execution_date r = Some (timestamp (reading c))" for r n c
  proof -
    from minus_days_age [OF clock_valid that(4) that(3) that(5) since]
    have "before (reading c) since \<longleftrightarrow> or_default days 7 < n" by simp
    with chrono [OF that(1) that(2) that(6)] show ?thesis by auto
  qed
  have c1: "1000 \<le> year since \<longrightarrow>
          (\<forall>r \<in> set (rows st). \<forall>c. execution_date r = Some (timestamp (reading c)) \<longrightarrow>
            (r \<in> set window \<longleftrightarrow> \<not> before (reading c) since))"
    using chrono by blast
  have c2: "1000 \<le> year since \<longrightarrow>
          (\<forall>r \<in> set (rows st). \<forall>n c. 0 \<le> or_default days 7 \<longrightarrow> 0 \<le> n \<longrightarrow>
            minus_days (reading now) n = Some (reading c) \<longrightarrow>
            execution_date r = Some (timestamp (reading c)) \<longrightarrow>
            (r \<in> set window \<longleftrightarrow> n \<le> or_default days 7))"
    using age by blast
  from get_kpis_Some [OF since, of st] c1 c2 show ?thesis
    unfolding Let_def window_def by (intro conjI)
qed

text \<open>The KPIs of the sample store and of an empty one, with the default window.\<close>

lemma example_kpis: "get_kpis example_now None example_aged = Inr (2, 50, 3)"
  by code_simp

lemma example_kpis_empty: "get_kpis example_now None init_db = Inr (0, 0, 0)"
  by code_simp


subsection \<open>Rows are written once\<close>

text \<open>
  An iteration that ends in an uncaught exception leaves the store as it was, so every
  batch, returned or aborted, only appends rows, each made by one iteration.
\<close>

lemma run_one_Inl:
  assumes "run_one env b p st = (Inl e, st')"
  shows "st' = st"
proof (cases rule: run_one_cases [of env b p])
  case (completed ls rc)
  from run_one_Completed [OF this, of st] assms show ?thesis by simp
next
  case (raised msg)
  from run_one_Raised [OF this, of st] assms show ?thesis by simp
next
  case (save_fault ls rc msg)
  from run_one_save_fault [OF this, of st] assms show ?thesis by simp
next
  case (abort m msg ls rc)
  from run_one_abort [OF this, of st] assms show ?thesis by simp
qed

lemma run_loop_rows:
  "run_loop env b i ps acc st = (res, st') \<Longrightarrow>
   \<exists>news. rows st' = rows st @ news \<and> length news \<le> length ps \<and>
     (\<forall>j<length news. \<exists>sj sj' r. run_one (env (i + j)) b (ps ! j) sj = (Inr r, sj') \<and>
        rows sj' = rows sj @ [news ! j])"
proof (induction ps arbitrary: i acc st)
  case Nil
  then show ?case by simp
next
  case (Cons p ps)
  obtain r1 st1 where one: "run_one (env i) b p st = (r1, st1)"
    by (cases "run_one (env i) b p st")
  show ?case
  proof (cases r1)
    case (Inl e)
    with one Cons.prems have "st' = st1" by simp
    moreover from run_one_Inl one Inl have "st1 = st" by blast
    ultimately show ?thesis by (intro exI [of _ "[]"]) simp
  next
    case (Inr r)
    with one Cons.prems have rest: "run_loop env b (Suc i) ps (acc @ [r]) st1 = (res, st')"
      by simp
    from run_one_Inr one Inr obtain row where row: "rows st1 = rows st @ [row]"
      by blast
    from Cons.IH [OF rest] obtain news where
      ih: "rows st' = rows st1 @ news" "length news \<le> length ps"
        "\<forall>j<length news. \<exists>sj sj' r. run_one (env (Suc i + j)) b (ps ! j) sj = (Inr r, sj') \<and>
            rows sj' = rows sj @ [news ! j]"
      by blast
    have "\<forall>j<length (row # news). \<exists>sj sj' r.
          run_one (env (i + j)) b ((p # ps) ! j) sj = (Inr r, sj') \<and>
          rows sj' = rows sj @ [(row # news) ! j]"
    proof (intro allI impI)
      fix j assume j: "j < length (row # news)"
      show "\<exists>sj sj' r. run_one (env (i + j)) b ((p # ps) ! j) sj = (Inr r, sj') \<and>
          rows sj' = rows sj @ [(row # news) ! j]"
      proof (cases j)
        case 0
        from one Inr row have "run_one (env (i + 0)) b ((p # ps) ! 0) st = (Inr r, st1) \<and>
            rows st1 = rows st @ [(row # news) ! 0]"
          by simp
        with 0 show ?thesis by blast
      next
        case (Suc k)
        with j ih(3) show ?thesis by auto
      qed
    qed
    with ih row show ?thesis
      by (intro exI [of _ "row # news"]) simp
  qed
qed

text \<open>
  C7. Whatever a batch meets, and whether it returns or is aborted, the store afterwards
  is the store before followed by new rows, one for each file that was reached. Each new
  row has the file's base name as its name, the status \<^verbatim>\<open>Pass\<close> or \<^verbatim>\<open>Fail\<close>, a duration
  that is not null and not negative, and as its \<^verbatim>\<open>execution_date\<close> the clock reading of
  the \<^verbatim>\<open>save_test_result\<close> that wrote it, in the shape \<^verbatim>\<open>YYYY-MM-DD HH:MM:SS\<close>. A call
  of \<^verbatim>\<open>save_test_result\<close> appends one row stamped with its clock reading and changes no
  other; \<^verbatim>\<open>delete_old_tests\<close> only removes rows. No other operation writes the store.
\<close>

theorem inserted_rows_invariant:
  "(\<exists>news. rows (snd (run_robot_tests env file_paths browser st)) = rows st @ news \<and>
      length news \<le> length file_paths \<and>
      (\<forall>j<length news.
         test_name (news ! j) = Some (basename (file_paths ! j)) \<and>
         (status (news ! j) = Some ''Pass'' \<or> status (news ! j) = Some ''Fail'') \<and>
         (\<exists>d. duration (news ! j) = Some d \<and> 0 \<le> d) \<and>
         (execution_date (news ! j) = Some (timestamp (reading (save_now (env j)))) \<or>
          execution_date (news ! j) = Some (timestamp (reading (handler_now (env j))))) \<and>
         (\<exists>x. execution_date (news ! j) = Some x \<and> timestamp_format x))) \<and>
   (\<forall>st'. save_test_result now fault name dur stat st = Inr st' \<longrightarrow>
      rows st' = rows st @ [\<lparr>row_id = next_id st, test_name = name,
        execution_date = Some (timestamp (reading now)), duration = Some dur, status = stat\<rparr>] \<and>
      timestamp_format (timestamp (reading now))) \<and>
   (\<forall>st'. delete_old_tests now days st = Inr st' \<longrightarrow>
      (\<exists>keep. rows st' = filter keep (rows st)))"
proof (intro conjI allI impI)
  let ?b = "or_default browser ''chrome''"
  obtain res st' where run: "run_loop env ?b 0 file_paths [] st = (res, st')"
    by (cases "run_loop env ?b 0 file_paths [] st")
  from run_loop_rows [OF run] obtain news where
    news: "rows st' = rows st @ news" "length news \<le> length file_paths" and
    each: "\<forall>j<length news. \<exists>sj sj' r. run_one (env (0 + j)) ?b (file_paths ! j) sj = (Inr r, sj') \<and>
        rows sj' = rows sj @ [news ! j]"
    by blast
  have "test_name (news ! j) = Some (basename (file_paths ! j)) \<and>
         (status (news ! j) = Some ''Pass'' \<or> status (news ! j) = Some ''Fail'') \<and>
         (\<exists>d. duration (news ! j) = Some d \<and> 0 \<le> d) \<and>
         (execution_date (news ! j) = Some (timestamp (reading (save_now (env j)))) \<or>
          execution_date (news ! j) = Some (timestamp (reading (handler_now (env j))))) \<and>
         (\<exists>x. execution_date (news ! j) = Some x \<and> timestamp_format x)"
    if "j < length news" for j
  proof -
    from each that obtain sj sj' r where
      one: "run_one (env j) ?b (file_paths ! j) sj = (Inr r, sj')" and
      row: "rows sj' = rows sj @ [news ! j]"
      by auto
    from run_one_Inr_facts [OF one row] show ?thesis
      by (auto simp: timestamp_format_timestamp)
  qed
  with news run
  show "\<exists>news. rows (snd (run_robot_tests env file_paths browser st)) = rows st @ news \<and>
      length news \<le> length file_paths \<and>
      (\<forall>j<length news.
         test_name (news ! j) = Some (basename (file_paths ! j)) \<and>
         (status (news ! j) = Some ''Pass'' \<or> status (news ! j) = Some ''Fail'') \<and>
         (\<exists>d. duration (news ! j) = Some d \<and> 0 \<le> d) \<and>
         (execution_date (news ! j) = Some (timestamp (reading (save_now (env j)))) \<or>
          execution_date (news ! j) = Some (timestamp (reading (handler_now (env j))))) \<and>
         (\<exists>x. execution_date (news ! j) = Some x \<and> timestamp_format x))"
    by (intro exI [of _ news]) (simp add: run_robot_tests_def)
next
  fix st' assume "save_test_result now fault name dur stat st = Inr st'"
  from save_test_result_Inr [OF this]
  show "rows st' = rows st @ [\<lparr>row_id = next_id st, test_name = name,
        execution_date = Some (timestamp (reading now)), duration = Some dur, status = stat\<rparr>]"
    by simp
next
  show "timestamp_format (timestamp (reading now))" by (rule timestamp_format_timestamp)
next
  fix st' assume "delete_old_tests now days st = Inr st'"
  then show "\<exists>keep. rows st' = filter keep (rows st)"
    by (auto simp: delete_old_tests_def split: option.splits)
qed


text \<open>C7 on the sample batch run on the sample store, on one more row saved and on
  the sweep of 10 days.\<close>

theorem inserted_rows_invariant_witness:
  "(\<exists>news. rows (snd (run_robot_tests example_env example_paths None example_aged)) =
        rows example_aged @ news \<and>
      length news \<le> length example_paths \<and>
      (\<forall>j<length news.
         test_name (news ! j) = Some (basename (example_paths ! j)) \<and>
         (status (news ! j) = Some ''Pass'' \<or> status (news ! j) = Some ''Fail'') \<and>
         (\<exists>d. duration (news ! j) = Some d \<and> 0 \<le> d) \<and>
         (execution_date (news ! j) = Some (timestamp (reading (save_now (example_env j)))) \<or>
          execution_date (news ! j) = Some (timestamp (reading (handler_now (example_env j))))) \<and>
         (\<exists>x. execution_date (news ! j) = Some x \<and> timestamp_format x))) \<and>
   timestamp_format (timestamp (reading example_now)) \<and>
   (\<exists>keep. tl (rows example_aged) = filter keep (rows example_aged))"
proof -
  note inv = inserted_rows_invariant [of example_env example_paths None example_aged
      example_now None "Some ''new.robot''" 1 "Some ''Pass''" "Some 10"]
  have saved: "save_test_result example_now None (Some ''new.robot'') 1 (Some ''Pass'')
      example_aged =
      Inr \<lparr>rows = rows example_aged @ [\<lparr>row_id = next_id example_aged,
            test_name = Some ''new.robot'', execution_date = Some (timestamp (reading example_now)),
            duration = Some 1, status = Some ''Pass''\<rparr>],
          last_id = next_id example_aged\<rparr>"
    by (rule save_test_result_ok)
  from inv saved have "timestamp_format (timestamp (reading example_now))"
    by blast
  moreover from inv example_sweep
  have "\<exists>keep. rows \<lparr>rows = tl (rows example_aged), last_id = 3\<rparr> = filter keep (rows example_aged)"
    by blast
  then have "\<exists>keep. tl (rows example_aged) = filter keep (rows example_aged)"
    by simp
  moreover from inv have "\<exists>news. rows (snd (run_robot_tests example_env example_paths None example_aged)) =
        rows example_aged @ news \<and>
      length news \<le> length example_paths \<and>
      (\<forall>j<length news.
         test_name (news ! j) = Some (basename (example_paths ! j)) \<and>
         (status (news ! j) = Some ''Pass'' \<or> status (news ! j) = Some ''Fail'') \<and>
         (\<exists>d. duration (news ! j) = Some d \<and> 0 \<le> d) \<and>
         (execution_date (news ! j) = Some (timestamp (reading (save_now (example_env j)))) \<or>
          execution_date (news ! j) = Some (timestamp (reading (handler_now (example_env j))))) \<and>
         (\<exists>x. execution_date (news ! j) = Some x \<and> timestamp_format x))"
    by (rule conjunct1)
  ultimately show ?thesis by (intro conjI)
qed

subsection \<open>Search patterns\<close>

text \<open>The matching procedure decides what the pattern stands for.\<close>

lemma like_denotes_Nil [simp]: "like_denotes [] s \<longleftrightarrow> s = []"
  by (auto simp: like_denotes_def)

lemma like_denotes_Cons:
  "like_denotes (p # ps) s \<longleftrightarrow>
   (\<exists>seg rest. s = seg @ rest \<and> like_covers p seg \<and> like_denotes ps rest)"
proof
  assume "like_denotes (p # ps) s"
  then obtain segs where segs: "list_all2 like_covers (p # ps) segs" "concat segs = s"
    unfolding like_denotes_def by blast
  from segs(1) obtain z zs where z: "segs = z # zs" "like_covers p z" "list_all2 like_covers ps zs"
    by (auto simp: list_all2_Cons1)
  with segs(2) have "s = z @ concat zs \<and> like_covers p z \<and> like_denotes ps (concat zs)"
    unfolding like_denotes_def by auto
  then show "\<exists>seg rest. s = seg @ rest \<and> like_covers p seg \<and> like_denotes ps rest"
    by blast
next
  assume "\<exists>seg rest. s = seg @ rest \<and> like_covers p seg \<and> like_denotes ps rest"
  then obtain seg rest segs where "s = seg @ rest" "like_covers p seg"
      "list_all2 like_covers ps segs" "concat segs = rest"
    unfolding like_denotes_def by blast
  then have "list_all2 like_covers (p # ps) (seg # segs) \<and> concat (seg # segs) = s"
    by simp
  then show "like_denotes (p # ps) s"
    unfolding like_denotes_def by blast
qed

lemma like_covers_percent [simp]: "like_covers (CHR ''%'') seg"
  by (simp add: like_covers_def)

lemma like_covers_other:
  "p \<noteq> CHR ''%'' \<Longrightarrow> like_covers p seg \<longleftrightarrow> (\<exists>c. seg = [c] \<and> (p = CHR ''_'' \<or> to_lower p = to_lower c))"
  by (auto simp: like_covers_def split: list.splits)

lemma like_match_denotes: "like_match pat s \<longleftrightarrow> like_denotes pat s"
proof (induction pat s rule: like_match.induct)
  case (1 s)
  show ?case by auto
next
  case (2 p ps)
  show ?case
  proof (cases "p = CHR ''%''")
    case True
    with 2 show ?thesis by (auto simp: like_denotes_Cons)
  next
    case False
    then show ?thesis by (auto simp: like_denotes_Cons like_covers_other)
  qed
next
  case (3 p ps c cs)
  show ?case
  proof (cases "p = CHR ''%''")
    case True
    have "like_denotes (p # ps) (c # cs) \<longleftrightarrow>
          like_denotes ps (c # cs) \<or> like_denotes (p # ps) cs"
    proof
      assume "like_denotes (p # ps) (c # cs)"
      then obtain seg rest where sr: "c # cs = seg @ rest" "like_denotes ps rest"
        by (auto simp: like_denotes_Cons)
      show "like_denotes ps (c # cs) \<or> like_denotes (p # ps) cs"
      proof (cases seg)
        case Nil
        with sr show ?thesis by simp
      next
        case (Cons x seg')
        with sr have "cs = seg' @ rest" by simp
        with sr(2) True have "like_denotes (p # ps) cs"
          by (auto simp: like_denotes_Cons)
        then show ?thesis ..
      qed
    next
      assume "like_denotes ps (c # cs) \<or> like_denotes (p # ps) cs"
      then show "like_denotes (p # ps) (c # cs)"
      proof
        assume "like_denotes ps (c # cs)"
        with True have "c # cs = [] @ (c # cs) \<and> like_covers p [] \<and> like_denotes ps (c # cs)"
          by simp
        then show ?thesis unfolding like_denotes_Cons by blast
      next
        assume "like_denotes (p # ps) cs"
        then obtain seg rest where "cs = seg @ rest" "like_denotes ps rest"
          by (auto simp: like_denotes_Cons)
        with True have "c # cs = (c # seg) @ rest \<and> like_covers p (c # seg) \<and> like_denotes ps rest"
          by simp
        then show ?thesis unfolding like_denotes_Cons by blast
      qed
    qed
    with True 3 show ?thesis by simp
  next
    case False
    have "like_denotes (p # ps) (c # cs) \<longleftrightarrow>
          (p = CHR ''_'' \<or> to_lower p = to_lower c) \<and> like_denotes ps cs"
    proof
      assume "like_denotes (p # ps) (c # cs)"
      then obtain seg rest where sr: "c # cs = seg @ rest" "like_covers p seg"
          "like_denotes ps rest"
        unfolding like_denotes_Cons by blast
      from sr(2) False obtain x where x: "seg = [x]" "p = CHR ''_'' \<or> to_lower p = to_lower x"
        by (auto simp: like_covers_other)
      with sr(1) have "x = c" "rest = cs" by simp_all
      with x sr(3) show "(p = CHR ''_'' \<or> to_lower p = to_lower c) \<and> like_denotes ps cs"
        by simp
    next
      assume "(p = CHR ''_'' \<or> to_lower p = to_lower c) \<and> like_denotes ps cs"
      with False have "c # cs = [c] @ cs \<and> like_covers p [c] \<and> like_denotes ps cs"
        by (simp add: like_covers_other)
      then show "like_denotes (p # ps) (c # cs)"
        unfolding like_denotes_Cons by blast
    qed
    with False 3 show ?thesis by simp
  qed
qed

text \<open>A pattern between two \<^verbatim>\<open>%\<close> is looked for anywhere in the text.\<close>

lemma like_denotes_append:
  "like_denotes (p @ q) s \<longleftrightarrow> (\<exists>a b. s = a @ b \<and> like_denotes p a \<and> like_denotes q b)"
proof (induction p arbitrary: s)
  case Nil
  show ?case by simp
next
  case (Cons x p)
  show ?case
  proof
    assume "like_denotes ((x # p) @ q) s"
    then obtain seg rest where "s = seg @ rest" "like_covers x seg" "like_denotes (p @ q) rest"
      by (auto simp: like_denotes_Cons)
    moreover from this(3) Cons.IH obtain a b where "rest = a @ b" "like_denotes p a" "like_denotes q b"
      by blast
    ultimately have "s = (seg @ a) @ b \<and> like_denotes (x # p) (seg @ a) \<and> like_denotes q b"
      by (auto simp: like_denotes_Cons)
    then show "\<exists>a b. s = a @ b \<and> like_denotes (x # p) a \<and> like_denotes q b" by blast
  next
    assume "\<exists>a b. s = a @ b \<and> like_denotes (x # p) a \<and> like_denotes q b"
    then obtain a b where ab: "s = a @ b" "like_denotes (x # p) a" "like_denotes q b" by blast
    from ab(2) obtain seg rest where sr: "a = seg @ rest" "like_covers x seg" "like_denotes p rest"
      by (auto simp: like_denotes_Cons)
    from sr(3) ab(3) Cons.IH [of "rest @ b"] have "like_denotes (p @ q) (rest @ b)" by blast
    with ab(1) sr(1,2) have "s = seg @ (rest @ b) \<and> like_covers x seg \<and> like_denotes (p @ q) (rest @ b)"
      by simp
    then show "like_denotes ((x # p) @ q) s"
      unfolding append_Cons like_denotes_Cons by blast
  qed
qed

lemma like_denotes_percent [simp]: "like_denotes ''%'' s"
proof -
  have "s = s @ [] \<and> like_covers (CHR ''%'') s \<and> like_denotes [] []" by simp
  then show ?thesis unfolding like_denotes_Cons by blast
qed

lemma like_match_wrapped:
  "like_match (''%'' @ f @ ''%'') s \<longleftrightarrow> (\<exists>pre mid post. s = pre @ mid @ post \<and> like_denotes f mid)"
  unfolding like_match_denotes like_denotes_append
  by auto


text \<open>
  A pattern without \<^verbatim>\<open>%\<close> and \<^verbatim>\<open>_\<close> stands for itself up to the case of ASCII letters.
\<close>

lemma take_eq_prefix: "take (length f) s = f \<longleftrightarrow> (\<exists>post. s = f @ post)"
proof
  assume "take (length f) s = f"
  then have "s = f @ drop (length f) s"
    by (metis append_take_drop_id)
  then show "\<exists>post. s = f @ post" ..
next
  assume "\<exists>post. s = f @ post"
  then show "take (length f) s = f" by auto
qed

lemma is_substring_iff: "is_substring f s \<longleftrightarrow> (\<exists>pre post. s = pre @ f @ post)"
proof (induction s)
  case Nil
  show ?case by auto
next
  case (Cons c cs)
  show ?case
  proof
    assume "is_substring f (c # cs)"
    then consider "take (length f) (c # cs) = f" | "is_substring f cs" by auto
    then show "\<exists>pre post. c # cs = pre @ f @ post"
    proof cases
      case 1
      then obtain post where "c # cs = [] @ f @ post"
        unfolding take_eq_prefix by auto
      then show ?thesis by blast
    next
      case 2
      with Cons.IH obtain pre post where "cs = pre @ f @ post" by blast
      then have "c # cs = (c # pre) @ f @ post" by simp
      then show ?thesis by blast
    qed
  next
    assume "\<exists>pre post. c # cs = pre @ f @ post"
    then obtain pre post where pp: "c # cs = pre @ f @ post" by blast
    show "is_substring f (c # cs)"
    proof (cases pre)
      case Nil
      with pp have "\<exists>post. c # cs = f @ post" by auto
      then have "take (length f) (c # cs) = f"
        unfolding take_eq_prefix .
      then show ?thesis by simp
    next
      case (Cons x pre')
      with pp have "cs = pre' @ f @ post" by simp
      with Cons.IH have "is_substring f cs" by blast
      then show ?thesis by simp
    qed
  qed
qed

lemma like_denotes_plain:
  "\<forall>c \<in> set f. c \<noteq> CHR ''%'' \<and> c \<noteq> CHR ''_'' \<Longrightarrow>
   like_denotes f mid \<longleftrightarrow> map to_lower mid = map to_lower f"
proof (induction f arbitrary: mid)
  case Nil
  show ?case by simp
next
  case (Cons p ps)
  then have p: "p \<noteq> CHR ''%''" "p \<noteq> CHR ''_''" and
    ih: "\<And>m. like_denotes ps m \<longleftrightarrow> map to_lower m = map to_lower ps"
    by simp_all
  show ?case
  proof (cases mid)
    case Nil
    with p show ?thesis by (auto simp: like_denotes_Cons like_covers_other)
  next
    case (Cons c cs)
    have "like_denotes (p # ps) (c # cs) \<longleftrightarrow> to_lower p = to_lower c \<and> like_denotes ps cs"
    proof
      assume "like_denotes (p # ps) (c # cs)"
      then obtain seg rest where sr: "c # cs = seg @ rest" "like_covers p seg"
          "like_denotes ps rest"
        unfolding like_denotes_Cons by blast
      from sr(2) p obtain x where x: "seg = [x]" "to_lower p = to_lower x"
        by (auto simp: like_covers_other)
      with sr(1) have "x = c" "rest = cs" by simp_all
      with x sr(3) show "to_lower p = to_lower c \<and> like_denotes ps cs" by simp
    next
      assume "to_lower p = to_lower c \<and> like_denotes ps cs"
      with p have "c # cs = [c] @ cs \<and> like_covers p [c] \<and> like_denotes ps cs"
        by (simp add: like_covers_other)
      then show "like_denotes (p # ps) (c # cs)"
        unfolding like_denotes_Cons by blast
    qed
    with Cons ih [of cs] show ?thesis by auto
  qed
qed

lemma like_match_plain:
  assumes "\<forall>c \<in> set f. c \<noteq> CHR ''%'' \<and> c \<noteq> CHR ''_''"
  shows "like_match (''%'' @ f @ ''%'') s \<longleftrightarrow> is_substring (map to_lower f) (map to_lower s)"
proof
  assume "like_match (''%'' @ f @ ''%'') s"
  then obtain pre mid post where "s = pre @ mid @ post" "like_denotes f mid"
    unfolding like_match_wrapped by blast
  with like_denotes_plain [OF assms, of mid]
  have "map to_lower s = map to_lower pre @ map to_lower f @ map to_lower post"
    by simp
  then show "is_substring (map to_lower f) (map to_lower s)"
    unfolding is_substring_iff by blast
next
  assume "is_substring (map to_lower f) (map to_lower s)"
  then obtain pre' post' where "map to_lower s = pre' @ map to_lower f @ post'"
    unfolding is_substring_iff by blast
  then have "\<exists>us vs. s = us @ vs \<and> pre' = map to_lower us \<and>
      map to_lower f @ post' = map to_lower vs"
    by (simp add: map_eq_append_conv)
  then obtain pre rest where pre: "s = pre @ rest" and
    rest: "map to_lower f @ post' = map to_lower rest"
    by blast
  from rest have "\<exists>us vs. rest = us @ vs \<and> map to_lower f = map to_lower us \<and>
      post' = map to_lower vs"
    by (simp add: append_eq_map_conv)
  then obtain mid post where mid: "rest = mid @ post" "map to_lower mid = map to_lower f"
    by auto
  with like_denotes_plain [OF assms, of mid] have "like_denotes f mid" by simp
  with pre mid(1) show "like_match (''%'' @ f @ ''%'') s"
    unfolding like_match_wrapped by blast
qed

subsection \<open>Reading the history\<close>

text \<open>Ordering keeps the rows and sorts them; the limit cuts a prefix.\<close>

lemma set_insert_desc: "set (insert_desc key r xs) = insert r (set xs)"
  by (induction xs) auto

lemma length_insert_desc: "length (insert_desc key r xs) = Suc (length xs)"
  by (induction xs) auto

lemma sorted_insert_desc:
  "sorted_wrt (\<lambda>a b. key b \<le> key a) xs \<Longrightarrow>
   sorted_wrt (\<lambda>a b. key b \<le> key a) (insert_desc key r xs)"
  by (induction xs) (auto simp: set_insert_desc)

lemma set_order_by_desc: "set (order_by_desc key xs) = set xs"
  by (induction xs) (auto simp: set_insert_desc)

lemma length_order_by_desc: "length (order_by_desc key xs) = length xs"
  by (induction xs) (auto simp: length_insert_desc)

lemma sorted_order_by_desc: "sorted_wrt (\<lambda>a b. key b \<le> key a) (order_by_desc key xs)"
  by (induction xs) (auto simp: sorted_insert_desc)

lemma length_sql_limit: "0 \<le> n \<Longrightarrow> length (sql_limit n xs) = min (nat n) (length xs)"
  by (simp add: sql_limit_def)

lemma set_sql_limit: "set (sql_limit n xs) \<subseteq> set xs"
  by (auto simp: sql_limit_def dest: in_set_takeD)

lemma sql_limit_all: "n < 0 \<or> length xs \<le> nat n \<Longrightarrow> sql_limit n xs = xs"
  by (auto simp: sql_limit_def)

lemma sorted_sql_limit: "sorted_wrt P xs \<Longrightarrow> sorted_wrt P (sql_limit n xs)"
  by (simp add: sql_limit_def sorted_wrt_take)

text \<open>The query of \<^verbatim>\<open>get_recent_tests\<close>, by the search argument.\<close>

lemma sql_true_like_or:
  "sql_true (sql_or (sql_like a pat) (sql_like b pat)) \<longleftrightarrow>
   (\<exists>t. a = Some t \<and> like_match pat t) \<or> (\<exists>t. b = Some t \<and> like_match pat t)"
  by (cases a; cases b) (auto simp: sql_true_def sql_or_def sql_like_def)

lemma get_recent_tests_None:
  "get_recent_tests dt limit None st =
     sql_limit (or_default limit 50) (order_by_desc (\<lambda>r. dt (execution_date r)) (rows st))"
  by (simp add: get_recent_tests_def)

lemma get_recent_tests_empty:
  "get_recent_tests dt limit (Some []) st =
     sql_limit (or_default limit 50) (order_by_desc (\<lambda>r. dt (execution_date r)) (rows st))"
  by (simp add: get_recent_tests_def)

lemma get_recent_tests_Some:
  "s \<noteq> [] \<Longrightarrow>
   get_recent_tests dt limit (Some s) st =
     sql_limit (or_default limit 50) (order_by_desc (\<lambda>r. dt (execution_date r))
       (filter (\<lambda>r. (\<exists>t. test_name r = Some t \<and> like_match (''%'' @ s @ ''%'') t) \<or>
                     (\<exists>t. status r = Some t \<and> like_match (''%'' @ s @ ''%'') t)) (rows st)))"
  by (simp add: get_recent_tests_def sql_true_like_or)

lemma get_recent_tests_selected:
  "\<exists>sel. get_recent_tests dt limit search st =
     sql_limit (or_default limit 50) (order_by_desc (\<lambda>r. dt (execution_date r))
       (filter sel (rows st)))"
proof (cases "search = None \<or> search = Some []")
  case True
  have "rows st = filter (\<lambda>_. True) (rows st)" by simp
  with True show ?thesis
    by (metis get_recent_tests_None get_recent_tests_empty)
next
  case False
  then obtain s where "search = Some s" "s \<noteq> []" by auto
  with get_recent_tests_Some [of s dt limit st] show ?thesis by blast
qed

lemma limited_ordered_filter:
  "set (sql_limit n (order_by_desc key (filter P xs))) \<subseteq> {x \<in> set xs. P x} \<and>
   (n < 0 \<or> length xs \<le> nat n \<longrightarrow>
      set (sql_limit n (order_by_desc key (filter P xs))) = {x \<in> set xs. P x})"
proof -
  have sub: "set (sql_limit n (order_by_desc key (filter P xs))) \<subseteq> {x \<in> set xs. P x}"
    using set_sql_limit [of n "order_by_desc key (filter P xs)"]
    by (auto simp: set_order_by_desc)
  have "sql_limit n (order_by_desc key (filter P xs)) = order_by_desc key (filter P xs)"
    if "n < 0 \<or> length xs \<le> nat n"
  proof -
    have "length (filter P xs) \<le> length xs" by (rule length_filter_le)
    with that have "n < 0 \<or> length (filter P xs) \<le> nat n"
      by linarith
    then have "n < 0 \<or> length (order_by_desc key (filter P xs)) \<le> nat n"
      by (simp only: length_order_by_desc)
    then show ?thesis by (rule sql_limit_all)
  qed
  then have "set (sql_limit n (order_by_desc key (filter P xs))) = {x \<in> set xs. P x}"
    if "n < 0 \<or> length xs \<le> nat n"
    using that by (auto simp: set_order_by_desc)
  with sub show ?thesis by blast
qed

text \<open>
  C10. With the empty string as search argument \<^verbatim>\<open>get_recent_tests\<close> returns what it
  returns without a search argument, for every limit and store: all rows are ordered and
  cut, none is filtered out, so with no limit every row of the store is returned.
\<close>

theorem get_recent_tests_empty_search:
  "get_recent_tests dt limit (Some []) st = get_recent_tests dt limit None st \<and>
   get_recent_tests dt limit (Some []) st =
     sql_limit (or_default limit 50) (order_by_desc (\<lambda>r. dt (execution_date r)) (rows st)) \<and>
   set (get_recent_tests dt (Some (- 1)) (Some []) st) = set (rows st)"
proof -
  have "set (get_recent_tests dt (Some (- 1)) (Some []) st) = set (rows st)"
    by (simp add: get_recent_tests_empty or_default_def sql_limit_def set_order_by_desc)
  then show ?thesis
    by (simp add: get_recent_tests_empty get_recent_tests_None)
qed

text \<open>
  C10 on the sample history with a row of null texts: the empty search returns it, as
  no search does, where the pattern \<^verbatim>\<open>%\<close> that every text matches does not.
\<close>

theorem get_recent_tests_empty_search_witness:
  "get_recent_tests (\<lambda>x. x) (Some 10) (Some []) example_history_null =
     get_recent_tests (\<lambda>x. x) (Some 10) None example_history_null \<and>
   get_recent_tests (\<lambda>x. x) (Some 10) (Some []) example_history_null =
     [firefox_row, chrome_row, null_row] \<and>
   get_recent_tests (\<lambda>x. x) (Some 10) (Some ''%'') example_history_null =
     [firefox_row, chrome_row]"
proof -
  have "get_recent_tests (\<lambda>x. x) (Some 10) (Some []) example_history_null =
     [firefox_row, chrome_row, null_row]"
    by code_simp
  moreover have "get_recent_tests (\<lambda>x. x) (Some 10) (Some ''%'') example_history_null =
     [firefox_row, chrome_row]"
    by code_simp
  ultimately show ?thesis
    using get_recent_tests_empty_search [of "\<lambda>x. x" "Some 10" example_history_null]
    by simp
qed

text \<open>
  C8. With a limit that is not negative \<^verbatim>\<open>get_recent_tests\<close> returns at most that many
  rows (without a search argument: the limit or all rows, whichever is less), all of
  them rows of the store, in descending order of the key \<^verbatim>\<open>datetime(execution_date)\<close>.
  When every row is stamped by the clock and SQLite's \<^verbatim>\<open>datetime()\<close> leaves such
  timestamps as they are, this is the descending order of \<^verbatim>\<open>execution_date\<close>, and no row
  comes before a row of a later datetime. A call without a limit is a call with the
  limit 50.
\<close>

theorem get_recent_tests_limit_and_order:
  "(0 \<le> or_default limit 50 \<longrightarrow>
      length (get_recent_tests dt limit search st) \<le> nat (or_default limit 50)) \<and>
   (0 \<le> or_default limit 50 \<longrightarrow>
      length (get_recent_tests dt limit None st) = min (nat (or_default limit 50)) (length (rows st))) \<and>
   set (get_recent_tests dt limit search st) \<subseteq> set (rows st) \<and>
   sorted_wrt (\<lambda>a b. dt (execution_date b) \<le> dt (execution_date a))
     (get_recent_tests dt limit search st) \<and>
   ((\<forall>c. dt (Some (timestamp (reading c))) = Some (timestamp (reading c))) \<and>
    (\<forall>r \<in> set (rows st). \<exists>c. execution_date r = Some (timestamp (reading c))) \<longrightarrow>
      sorted_wrt (\<lambda>a b. execution_date b \<le> execution_date a)
        (get_recent_tests dt limit search st) \<and>
      (\<forall>i j ca cb. i < j \<and> j < length (get_recent_tests dt limit search st) \<and>
         execution_date (get_recent_tests dt limit search st ! i) = Some (timestamp (reading ca)) \<and>
         execution_date (get_recent_tests dt limit search st ! j) = Some (timestamp (reading cb)) \<longrightarrow>
         \<not> before (reading ca) (reading cb))) \<and>
   get_recent_tests dt None search st = get_recent_tests dt (Some 50) search st"
proof -
  let ?res = "get_recent_tests dt limit search st"
  obtain sel where res: "?res = sql_limit (or_default limit 50)
      (order_by_desc (\<lambda>r. dt (execution_date r)) (filter sel (rows st)))"
    using get_recent_tests_selected by blast
  have len: "length ?res \<le> nat (or_default limit 50)" if "0 \<le> or_default limit 50"
    using that by (simp add: res length_sql_limit)
  have len_all: "length (get_recent_tests dt limit None st) =
      min (nat (or_default limit 50)) (length (rows st))" if "0 \<le> or_default limit 50"
    using that by (simp add: get_recent_tests_None length_sql_limit length_order_by_desc)
  have sub: "set ?res \<subseteq> set (rows st)"
    using set_sql_limit [of "or_default limit 50"
        "order_by_desc (\<lambda>r. dt (execution_date r)) (filter sel (rows st))"]
    by (auto simp: res set_order_by_desc)
  have sorted_key: "sorted_wrt (\<lambda>a b. dt (execution_date b) \<le> dt (execution_date a)) ?res"
    unfolding res by (intro sorted_sql_limit sorted_order_by_desc)
  have dflt: "get_recent_tests dt None search st = get_recent_tests dt (Some 50) search st"
    by (simp add: get_recent_tests_def or_default_def)
  have chrono: "sorted_wrt (\<lambda>a b. execution_date b \<le> execution_date a) ?res \<and>
      (\<forall>i j ca cb. i < j \<and> j < length ?res \<and>
         execution_date (?res ! i) = Some (timestamp (reading ca)) \<and>
         execution_date (?res ! j) = Some (timestamp (reading cb)) \<longrightarrow>
         \<not> before (reading ca) (reading cb))"
    if canon: "\<forall>c. dt (Some (timestamp (reading c))) = Some (timestamp (reading c))"
      and stamped: "\<forall>r \<in> set (rows st). \<exists>c. execution_date r = Some (timestamp (reading c))"
  proof -
    have same: "dt (execution_date r) = execution_date r" if "r \<in> set ?res" for r
      using that sub canon stamped by (metis subsetD)
    have sorted_date: "sorted_wrt (\<lambda>a b. execution_date b \<le> execution_date a) ?res"
      using sorted_key same
      by (auto simp: sorted_wrt_iff_nth_less)
    have "\<not> before (reading ca) (reading cb)"
      if "i < j" "j < length ?res"
        "execution_date (?res ! i) = Some (timestamp (reading ca))"
        "execution_date (?res ! j) = Some (timestamp (reading cb))" for i j ca cb
    proof -
      from sorted_date that(1,2) have "execution_date (?res ! j) \<le> execution_date (?res ! i)"
        by (simp add: sorted_wrt_iff_nth_less)
      with that(3,4) have "timestamp (reading cb) \<le> timestamp (reading ca)" by simp
      then show ?thesis by (rule iffD1 [OF clock_le_iff])
    qed
    with sorted_date show ?thesis by blast
  qed
  from len len_all sub sorted_key chrono dflt show ?thesis by blast
qed


text \<open>The sample history: its timestamps and its listing.\<close>

lemma example_timestamps:
  "execution_date chrome_row = Some (timestamp (reading chrome_time))"
  "execution_date firefox_row = Some (timestamp (reading firefox_time))"
  by code_simp+

lemma example_unfiltered:
  "get_recent_tests (\<lambda>x. x) None None example_history = [firefox_row, chrome_row]"
  "get_recent_tests (\<lambda>x. x) (Some 1) None example_history = [firefox_row]"
  by code_simp+

text \<open>C8 on the sample history, with the limit 1 and without a limit.\<close>

theorem get_recent_tests_limit_and_order_witness:
  "length (get_recent_tests (\<lambda>x. x) (Some 1) None example_history) \<le> nat 1 \<and>
   sorted_wrt (\<lambda>a b. execution_date b \<le> execution_date a)
     (get_recent_tests (\<lambda>x. x) (Some 1) None example_history) \<and>
   get_recent_tests (\<lambda>x. x) None None example_history =
     get_recent_tests (\<lambda>x. x) (Some 50) None example_history \<and>
   get_recent_tests (\<lambda>x. x) None None example_history = [firefox_row, chrome_row] \<and>
   get_recent_tests (\<lambda>x. x) (Some 1) None example_history = [firefox_row]"
proof -
  note inst = get_recent_tests_limit_and_order
    [where limit = "Some 1" and dt = "\<lambda>x. x" and search = None and st = example_history]
  note dflt = get_recent_tests_limit_and_order
    [where limit = None and dt = "\<lambda>x. x" and search = None and st = example_history]
  have canon: "\<forall>c. (\<lambda>x. x) (Some (timestamp (reading c))) = Some (timestamp (reading c))"
    by simp
  have stamped: "\<forall>r \<in> set (rows example_history).
      \<exists>c. execution_date r = Some (timestamp (reading c))"
    using example_timestamps by (auto simp: example_history_def)
  have limit: "0 \<le> or_default (Some (1::int)) 50" "nat (or_default (Some 1) 50) = nat 1"
    by (simp_all add: or_default_def)
  from inst limit have "length (get_recent_tests (\<lambda>x. x) (Some 1) None example_history) \<le> nat 1"
    by metis
  moreover from inst canon stamped
  have "sorted_wrt (\<lambda>a b. execution_date b \<le> execution_date a)
     (get_recent_tests (\<lambda>x. x) (Some 1) None example_history)"
    by blast
  moreover from dflt have "get_recent_tests (\<lambda>x. x) None None example_history =
     get_recent_tests (\<lambda>x. x) (Some 50) None example_history"
    by blast
  ultimately show ?thesis
    using example_unfiltered by blast
qed

subsection \<open>Searching the history\<close>

text \<open>The pattern \<^verbatim>\<open>_\<close> alone stands for the texts of one character.\<close>

lemma like_denotes_underscore: "like_denotes ''_'' y \<longleftrightarrow> (\<exists>c. y = [c])"
proof -
  have "like_denotes ''_'' y \<longleftrightarrow> (\<exists>seg rest. y = seg @ rest \<and> like_covers (CHR ''_'') seg \<and> rest = [])"
    by (simp add: like_denotes_Cons)
  also have "\<dots> \<longleftrightarrow> (\<exists>c. y = [c])"
    by (auto simp: like_covers_other)
  finally show ?thesis .
qed

text \<open>
  C5, as the code has it. For a search string that is not empty and has neither \<^verbatim>\<open>%\<close>
  nor \<^verbatim>\<open>_\<close> in it, \<^verbatim>\<open>get_recent_tests\<close> orders and cuts exactly the rows whose name or
  status is not null and contains the search string as a substring when ASCII letters
  are compared without regard to case. Every returned row is such a row, and when the
  limit is negative or not below the size of the store, every such row is returned.
\<close>

theorem get_recent_tests_search_substring:
  assumes nonempty: "s \<noteq> []" and plain: "\<forall>c \<in> set s. c \<noteq> CHR ''%'' \<and> c \<noteq> CHR ''_''"
  shows "get_recent_tests dt limit (Some s) st =
      sql_limit (or_default limit 50) (order_by_desc (\<lambda>r. dt (execution_date r))
        (filter (\<lambda>r. (\<exists>t. test_name r = Some t \<and> is_substring (map to_lower s) (map to_lower t)) \<or>
                      (\<exists>t. status r = Some t \<and> is_substring (map to_lower s) (map to_lower t)))
           (rows st))) \<and>
    set (get_recent_tests dt limit (Some s) st) \<subseteq>
      {r \<in> set (rows st).
        (\<exists>t. test_name r = Some t \<and> is_substring (map to_lower s) (map to_lower t)) \<or>
        (\<exists>t. status r = Some t \<and> is_substring (map to_lower s) (map to_lower t))} \<and>
    (or_default limit 50 < 0 \<or> length (rows st) \<le> nat (or_default limit 50) \<longrightarrow>
     set (get_recent_tests dt limit (Some s) st) =
      {r \<in> set (rows st).
        (\<exists>t. test_name r = Some t \<and> is_substring (map to_lower s) (map to_lower t)) \<or>
        (\<exists>t. status r = Some t \<and> is_substring (map to_lower s) (map to_lower t))})"
proof -
  let ?M = "\<lambda>r. (\<exists>t. test_name r = Some t \<and> is_substring (map to_lower s) (map to_lower t)) \<or>
                 (\<exists>t. status r = Some t \<and> is_substring (map to_lower s) (map to_lower t))"
  have eq: "get_recent_tests dt limit (Some s) st =
      sql_limit (or_default limit 50) (order_by_desc (\<lambda>r. dt (execution_date r))
        (filter ?M (rows st)))"
    by (simp only: get_recent_tests_Some [OF nonempty] like_match_plain [OF plain])
  from limited_ordered_filter [of "or_default limit 50" "\<lambda>r. dt (execution_date r)" ?M "rows st"]
  show ?thesis
    unfolding eq by blast
qed

text \<open>
  C9, as the code has it. No search string is rejected, and one that is not empty is put
  unescaped between two \<^verbatim>\<open>%\<close> of a \<^verbatim>\<open>LIKE\<close> pattern: \<^verbatim>\<open>get_recent_tests\<close> orders and cuts
  exactly the rows whose name or status is not null and has a part that the search
  string stands for as a pattern. In the search string a \<^verbatim>\<open>%\<close> stands for any run of
  characters and a \<^verbatim>\<open>_\<close> for any one character.
\<close>

theorem get_recent_tests_search_pattern:
  assumes nonempty: "s \<noteq> []"
  shows "get_recent_tests dt limit (Some s) st =
      sql_limit (or_default limit 50) (order_by_desc (\<lambda>r. dt (execution_date r))
        (filter (\<lambda>r. (\<exists>t pre mid post. test_name r = Some t \<and> t = pre @ mid @ post \<and> like_denotes s mid) \<or>
                      (\<exists>t pre mid post. status r = Some t \<and> t = pre @ mid @ post \<and> like_denotes s mid))
           (rows st))) \<and>
    set (get_recent_tests dt limit (Some s) st) \<subseteq>
      {r \<in> set (rows st).
        (\<exists>t pre mid post. test_name r = Some t \<and> t = pre @ mid @ post \<and> like_denotes s mid) \<or>
        (\<exists>t pre mid post. status r = Some t \<and> t = pre @ mid @ post \<and> like_denotes s mid)} \<and>
    (or_default limit 50 < 0 \<or> length (rows st) \<le> nat (or_default limit 50) \<longrightarrow>
     set (get_recent_tests dt limit (Some s) st) =
      {r \<in> set (rows st).
        (\<exists>t pre mid post. test_name r = Some t \<and> t = pre @ mid @ post \<and> like_denotes s mid) \<or>
        (\<exists>t pre mid post. status r = Some t \<and> t = pre @ mid @ post \<and> like_denotes s mid)}) \<and>
    (\<forall>a b mid. like_denotes (a @ ''%'' @ b) mid \<longleftrightarrow>
       (\<exists>x y z. mid = x @ y @ z \<and> like_denotes a x \<and> like_denotes b z)) \<and>
    (\<forall>a b mid. like_denotes (a @ ''_'' @ b) mid \<longleftrightarrow>
       (\<exists>x c z. mid = x @ c # z \<and> like_denotes a x \<and> like_denotes b z))"
proof -
  let ?M = "\<lambda>r. (\<exists>t pre mid post. test_name r = Some t \<and> t = pre @ mid @ post \<and> like_denotes s mid) \<or>
                 (\<exists>t pre mid post. status r = Some t \<and> t = pre @ mid @ post \<and> like_denotes s mid)"
  have M: "((\<exists>t. test_name r = Some t \<and> like_match (''%'' @ s @ ''%'') t) \<or>
            (\<exists>t. status r = Some t \<and> like_match (''%'' @ s @ ''%'') t)) = ?M r" for r
    unfolding like_match_wrapped by blast
  have eq: "get_recent_tests dt limit (Some s) st =
      sql_limit (or_default limit 50) (order_by_desc (\<lambda>r. dt (execution_date r))
        (filter ?M (rows st)))"
    by (simp only: get_recent_tests_Some [OF nonempty] M)
  have percent: "like_denotes (a @ ''%'' @ b) mid \<longleftrightarrow>
       (\<exists>x y z. mid = x @ y @ z \<and> like_denotes a x \<and> like_denotes b z)" for a b mid
    unfolding like_denotes_append by auto
  have underscore: "like_denotes (a @ ''_'' @ b) mid \<longleftrightarrow>
       (\<exists>x c z. mid = x @ c # z \<and> like_denotes a x \<and> like_denotes b z)" for a b mid
  proof
    assume "like_denotes (a @ ''_'' @ b) mid"
    then obtain x y c z where "mid = x @ y" "like_denotes a x" "y = [c] @ z" "like_denotes b z"
      unfolding like_denotes_append like_denotes_underscore by blast
    then have "mid = x @ c # z \<and> like_denotes a x \<and> like_denotes b z" by simp
    then show "\<exists>x c z. mid = x @ c # z \<and> like_denotes a x \<and> like_denotes b z" by blast
  next
    assume "\<exists>x c z. mid = x @ c # z \<and> like_denotes a x \<and> like_denotes b z"
    then obtain x c z where "mid = x @ c # z" "like_denotes a x" "like_denotes b z" by blast
    then have "mid = x @ ([c] @ z) \<and> like_denotes a x \<and>
        [c] @ z = [c] @ z \<and> (\<exists>d. [c] = [d]) \<and> like_denotes b z"
      by simp
    then show "like_denotes (a @ ''_'' @ b) mid"
      unfolding like_denotes_append like_denotes_underscore by blast
  qed
  from limited_ordered_filter [of "or_default limit 50" "\<lambda>r. dt (execution_date r)" ?M "rows st"]
    percent underscore
  show ?thesis
    unfolding eq by blast
qed

text \<open>
  C5 as stated fails: the search \<^verbatim>\<open>CHROME\<close> returns the row named
  \<^verbatim>\<open>test_chrome_login\<close>, whose name and status do not contain \<^verbatim>\<open>CHROME\<close>.
\<close>

theorem search_is_case_insensitive:
  "get_recent_tests (\<lambda>x. x) None (Some ''CHROME'') example_history = [chrome_row] \<and>
   test_name chrome_row = Some ''test_chrome_login'' \<and> status chrome_row = Some ''Pass'' \<and>
   \<not> is_substring ''CHROME'' ''test_chrome_login'' \<and> \<not> is_substring ''CHROME'' ''Pass''"
  by code_simp

text \<open>
  C9 as stated fails: the search \<^verbatim>\<open>l_gin\<close> returns the row named
  \<^verbatim>\<open>test_chrome_login\<close>, whose name and status do not contain \<^verbatim>\<open>l_gin\<close>.
\<close>

theorem search_underscore_is_wildcard:
  "get_recent_tests (\<lambda>x. x) None (Some ''l_gin'') example_history = [chrome_row] \<and>
   test_name chrome_row = Some ''test_chrome_login'' \<and> status chrome_row = Some ''Pass'' \<and>
   \<not> is_substring ''l_gin'' ''test_chrome_login'' \<and> \<not> is_substring ''l_gin'' ''Pass''"
  by code_simp

text \<open>Searches of the sample history, whose two rows are within the default limit.\<close>

lemma example_search_chrome:
  "get_recent_tests (\<lambda>x. x) None (Some ''chrome'') example_history = [chrome_row]"
  by code_simp


lemma example_search_pattern:
  "get_recent_tests (\<lambda>x. x) None (Some ''l_gin'') example_history = [chrome_row]"
  by code_simp

lemma example_history_fits:
  "or_default None (50::int) < 0 \<or> length (rows example_history) \<le> nat (or_default None 50)"
  by (simp add: or_default_def example_history_def)

text \<open>C5 on the sample history: the search \<^verbatim>\<open>chrome\<close> returns only the row named
  \<^verbatim>\<open>test_chrome_login\<close>.\<close>

theorem get_recent_tests_search_substring_witness:
  "get_recent_tests (\<lambda>x. x) None (Some ''chrome'') example_history = [chrome_row] \<and>
   set (get_recent_tests (\<lambda>x. x) None (Some ''chrome'') example_history) =
      {r \<in> set (rows example_history).
        (\<exists>t. test_name r = Some t \<and> is_substring (map to_lower ''chrome'') (map to_lower t)) \<or>
        (\<exists>t. status r = Some t \<and> is_substring (map to_lower ''chrome'') (map to_lower t))}"
proof -
  have nonempty: "''chrome'' \<noteq> []" by simp
  have plain: "\<forall>c \<in> set ''chrome''. c \<noteq> CHR ''%'' \<and> c \<noteq> CHR ''_''" by simp
  note inst = get_recent_tests_search_substring
    [OF nonempty plain, of "\<lambda>x. x" None example_history]
  from inst [THEN conjunct2, THEN conjunct2] example_history_fits
  have "set (get_recent_tests (\<lambda>x. x) None (Some ''chrome'') example_history) =
      {r \<in> set (rows example_history).
        (\<exists>t. test_name r = Some t \<and> is_substring (map to_lower ''chrome'') (map to_lower t)) \<or>
        (\<exists>t. status r = Some t \<and> is_substring (map to_lower ''chrome'') (map to_lower t))}"
    by (rule mp)
  with example_search_chrome show ?thesis by (rule conjI)
qed

text \<open>C9 on the sample history, searched for \<^verbatim>\<open>l_gin\<close>.\<close>

theorem get_recent_tests_search_pattern_witness:
  "get_recent_tests (\<lambda>x. x) None (Some ''l_gin'') example_history = [chrome_row] \<and>
   set (get_recent_tests (\<lambda>x. x) None (Some ''l_gin'') example_history) =
      {r \<in> set (rows example_history).
        (\<exists>t pre mid post. test_name r = Some t \<and> t = pre @ mid @ post \<and> like_denotes ''l_gin'' mid) \<or>
        (\<exists>t pre mid post. status r = Some t \<and> t = pre @ mid @ post \<and> like_denotes ''l_gin'' mid)}"
proof -
  have nonempty: "''l_gin'' \<noteq> []" by simp
  note inst = get_recent_tests_search_pattern [OF nonempty, of "\<lambda>x. x" None example_history]
  from inst [THEN conjunct2, THEN conjunct2, THEN conjunct1] example_history_fits
  have "set (get_recent_tests (\<lambda>x. x) None (Some ''l_gin'') example_history) =
      {r \<in> set (rows example_history).
        (\<exists>t pre mid post. test_name r = Some t \<and> t = pre @ mid @ post \<and> like_denotes ''l_gin'' mid) \<or>
        (\<exists>t pre mid post. status r = Some t \<and> t = pre @ mid @ post \<and> like_denotes ''l_gin'' mid)}"
    by (rule mp)
  with example_search_pattern show ?thesis by (rule conjI)
qed


subsection \<open>The daily trend\<close>

lemma pad4_eq_iff: "pad4 a = pad4 b \<longleftrightarrow> a mod 10000 = b mod 10000"
proof -
  have "a mod 100 < 100" "b mod 100 < 100" by simp_all
  then show ?thesis
    unfolding pad4_def mod10000_split [of a] mod10000_split [of b]
    by (simp add: pad2_eq_iff length_pad2 eq_base)
qed

text \<open>The first ten characters of a timestamp of the clock are its calendar date.\<close>

lemma date_text:
  "take 10 (timestamp (reading c)) =
     pad4 (year (reading c)) @ CHR ''-'' # pad2 (month (reading c)) @ CHR ''-'' #
     pad2 (day (reading c))"
  by (simp add: timestamp_four [OF clock_year] length_pad4 length_pad2)

lemma same_day_iff:
  "take 10 (timestamp (reading a)) = take 10 (timestamp (reading b)) \<longleftrightarrow>
     year (reading a) = year (reading b) \<and> month (reading a) = month (reading b) \<and>
     day (reading a) = day (reading b)"
  unfolding date_text
  by (simp add: length_pad4 length_pad2 pad4_eq_iff pad2_eq_iff
      valid_datetime_bounds [OF clock_valid [of a]] valid_datetime_bounds [OF clock_valid [of b]])

lemma count_if: "sum_list (map (\<lambda>r. if P r then 1 else 0) xs) = int (length (filter P xs))"
  by (induction xs) simp_all

lemma daily_trend_dates:
  "map fst (daily_trend sql_date st) =
     sort (remdups (map (\<lambda>r. sql_date (execution_date r)) (rows st)))"
  by (simp add: daily_trend_def Let_def comp_def)

lemma daily_trend_entry:
  assumes "(d, p, f) \<in> set (daily_trend sql_date st)"
  shows "p = int (length (filter (\<lambda>r. sql_date (execution_date r) = d \<and> status r = Some ''Pass'') (rows st))) \<and>
         f = int (length (filter (\<lambda>r. sql_date (execution_date r) = d \<and> status r = Some ''Fail'') (rows st)))"
  using assms
  by (auto simp: daily_trend_def Let_def count_if conj_commute)

text \<open>The query depends on \<^verbatim>\<open>date()\<close> only through its values on the stored dates.\<close>

lemma daily_trend_cong:
  assumes "\<forall>r \<in> set (rows st). f (execution_date r) = g (execution_date r)"
  shows "daily_trend f st = daily_trend g st"
proof -
  have keys: "map (\<lambda>r. f (execution_date r)) (rows st) = map (\<lambda>r. g (execution_date r)) (rows st)"
    using assms by simp
  have grp: "filter (\<lambda>r. f (execution_date r) = d) (rows st) =
      filter (\<lambda>r. g (execution_date r) = d) (rows st)" for d
    using assms by (simp cong: filter_cong)
  show ?thesis
    unfolding daily_trend_def by (simp only: keys grp)
qed

lemma example_days_stamped:
  "\<forall>r \<in> set (rows example_days). \<exists>c. execution_date r = Some (timestamp (reading c))"
proof -
  have "Some ''2024-01-01 09:00:00'' = Some (timestamp (reading first_day_morning))"
    "Some ''2024-01-02 10:30:00'' = Some (timestamp (reading second_day_morning))"
    "Some ''2024-01-01 17:45:10'' = Some (timestamp (reading first_day_evening))"
    "Some ''2024-01-01 23:59:59'' = Some (timestamp (reading first_day_night))"
    by code_simp+
  then show ?thesis
    unfolding example_days_def by (simp del: String.char.inject) blast
qed

lemma example_trend:
  "daily_trend (map_option (take 10)) example_days =
     [(Some ''2024-01-01'', 2, 1), (Some ''2024-01-02'', 1, 0)]"
  by code_simp

text \<open>
  C6. The daily trend query returns one entry per value of \<^verbatim>\<open>DATE(execution_date)\<close>
  among the rows, in ascending order of that value and without repetition; the
  entry of a date carries the number of rows of that date whose status is \<^verbatim>\<open>Pass\<close> and
  the number of those whose status is \<^verbatim>\<open>Fail\<close>. When SQLite's \<^verbatim>\<open>date()\<close> maps a timestamp
  of the clock to its first ten characters, two such timestamps fall into the same
  group exactly when they have the same year, month and day, and the rows dated
  2024-01-01 (two passes, one failure) and 2024-01-02 (one pass) give
  \<^verbatim>\<open>[("2024-01-01", 2, 1), ("2024-01-02", 1, 0)]\<close>.
\<close>

theorem daily_trend_groups_by_date:
  "sorted (map fst (daily_trend sql_date st)) \<and>
   distinct (map fst (daily_trend sql_date st)) \<and>
   set (map fst (daily_trend sql_date st)) = (\<lambda>r. sql_date (execution_date r)) ` set (rows st) \<and>
   (\<forall>(d, p, f) \<in> set (daily_trend sql_date st).
      p = int (length (filter (\<lambda>r. sql_date (execution_date r) = d \<and> status r = Some ''Pass'') (rows st))) \<and>
      f = int (length (filter (\<lambda>r. sql_date (execution_date r) = d \<and> status r = Some ''Fail'') (rows st)))) \<and>
   ((\<forall>c. sql_date (Some (timestamp (reading c))) = Some (take 10 (timestamp (reading c)))) \<longrightarrow>
    (\<forall>a b. sql_date (Some (timestamp (reading a))) = sql_date (Some (timestamp (reading b))) \<longleftrightarrow>
        year (reading a) = year (reading b) \<and> month (reading a) = month (reading b) \<and>
        day (reading a) = day (reading b)) \<and>
    daily_trend sql_date example_days =
      [(Some ''2024-01-01'', 2, 1), (Some ''2024-01-02'', 1, 0)])"
proof -
  have s: "sorted (map fst (daily_trend sql_date st))"
    by (simp only: daily_trend_dates sorted_sort)
  have d: "distinct (map fst (daily_trend sql_date st))"
    by (simp only: daily_trend_dates distinct_sort distinct_remdups)
  have k: "set (map fst (daily_trend sql_date st)) =
      (\<lambda>r. sql_date (execution_date r)) ` set (rows st)"
    by (simp only: daily_trend_dates set_sort set_remdups set_map)
  have c: "\<forall>(d, p, f) \<in> set (daily_trend sql_date st).
      p = int (length (filter (\<lambda>r. sql_date (execution_date r) = d \<and> status r = Some ''Pass'') (rows st))) \<and>
      f = int (length (filter (\<lambda>r. sql_date (execution_date r) = d \<and> status r = Some ''Fail'') (rows st)))"
    using daily_trend_entry by blast
  have g: "(\<forall>a b. sql_date (Some (timestamp (reading a))) = sql_date (Some (timestamp (reading b))) \<longleftrightarrow>
        year (reading a) = year (reading b) \<and> month (reading a) = month (reading b) \<and>
        day (reading a) = day (reading b)) \<and>
      daily_trend sql_date example_days =
        [(Some ''2024-01-01'', 2, 1), (Some ''2024-01-02'', 1, 0)]"
    if date: "\<forall>c. sql_date (Some (timestamp (reading c))) = Some (take 10 (timestamp (reading c)))"
  proof -
    have same: "\<forall>a b. sql_date (Some (timestamp (reading a))) = sql_date (Some (timestamp (reading b))) \<longleftrightarrow>
        year (reading a) = year (reading b) \<and> month (reading a) = month (reading b) \<and>
        day (reading a) = day (reading b)"
      using date same_day_iff by simp
    have "\<forall>r \<in> set (rows example_days).
        sql_date (execution_date r) = map_option (take 10) (execution_date r)"
    proof
      fix r assume "r \<in> set (rows example_days)"
      with example_days_stamped obtain c where "execution_date r = Some (timestamp (reading c))"
        by blast
      with date show "sql_date (execution_date r) = map_option (take 10) (execution_date r)"
        by simp
    qed
    then have "daily_trend sql_date example_days = daily_trend (map_option (take 10)) example_days"
      by (rule daily_trend_cong)
    with example_trend same show ?thesis by simp
  qed
  from s d k c g show ?thesis by blast
qed

text \<open>
  On the rows of the two days, with \<^verbatim>\<open>date()\<close> the first ten characters of the text,
  which is what it is on timestamps of the clock: the two entries, their order, the counts
  of the first day, and the morning and the night of the first day in one group.
\<close>

theorem daily_trend_groups_by_date_witness:
  "(\<forall>c. map_option (take 10) (Some (timestamp (reading c))) =
        Some (take 10 (timestamp (reading c)))) \<and>
   daily_trend (map_option (take 10)) example_days =
     [(Some ''2024-01-01'', 2, 1), (Some ''2024-01-02'', 1, 0)] \<and>
   sorted (map fst (daily_trend (map_option (take 10)) example_days)) \<and>
   distinct (map fst (daily_trend (map_option (take 10)) example_days)) \<and>
   set (map fst (daily_trend (map_option (take 10)) example_days)) =
     (\<lambda>r. map_option (take 10) (execution_date r)) ` set (rows example_days) \<and>
   int (length (filter (\<lambda>r. map_option (take 10) (execution_date r) = Some ''2024-01-01'' \<and>
                          status r = Some ''Pass'') (rows example_days))) = 2 \<and>
   int (length (filter (\<lambda>r. map_option (take 10) (execution_date r) = Some ''2024-01-01'' \<and>
                          status r = Some ''Fail'') (rows example_days))) = 1 \<and>
   map_option (take 10) (Some (timestamp (reading first_day_morning))) =
     map_option (take 10) (Some (timestamp (reading first_day_night)))"
proof -
  note inst = daily_trend_groups_by_date [of "map_option (take 10)" example_days]
  have date: "\<forall>c. map_option (take 10) (Some (timestamp (reading c))) =
      Some (take 10 (timestamp (reading c)))"
    by simp
  have s: "sorted (map fst (daily_trend (map_option (take 10)) example_days))"
    by (rule inst [THEN conjunct1])
  have d: "distinct (map fst (daily_trend (map_option (take 10)) example_days))"
    by (rule inst [THEN conjunct2, THEN conjunct1])
  have k: "set (map fst (daily_trend (map_option (take 10)) example_days)) =
      (\<lambda>r. map_option (take 10) (execution_date r)) ` set (rows example_days)"
    by (rule inst [THEN conjunct2, THEN conjunct2, THEN conjunct1])
  note c = inst [THEN conjunct2, THEN conjunct2, THEN conjunct2, THEN conjunct1]
  note g = mp [OF inst [THEN conjunct2, THEN conjunct2, THEN conjunct2, THEN conjunct2] date]
  have trend: "daily_trend (map_option (take 10)) example_days =
      [(Some ''2024-01-01'', 2, 1), (Some ''2024-01-02'', 1, 0)]"
    by (rule g [THEN conjunct2])
  have "(Some ''2024-01-01'', 2, 1) \<in> set (daily_trend (map_option (take 10)) example_days)"
    unfolding trend by simp
  with c have counts:
    "int (length (filter (\<lambda>r. map_option (take 10) (execution_date r) = Some ''2024-01-01'' \<and>
                          status r = Some ''Pass'') (rows example_days))) = 2"
    "int (length (filter (\<lambda>r. map_option (take 10) (execution_date r) = Some ''2024-01-01'' \<and>
                          status r = Some ''Fail'') (rows example_days))) = 1"
    by fastforce+
  have fields: "year (reading first_day_morning) = year (reading first_day_night) \<and>
      month (reading first_day_morning) = month (reading first_day_night) \<and>
      day (reading first_day_morning) = day (reading first_day_night)"
    by code_simp
  from g [THEN conjunct1] fields
  have group: "map_option (take 10) (Some (timestamp (reading first_day_morning))) =
      map_option (take 10) (Some (timestamp (reading first_day_night)))"
    by blast
  from date trend s d k counts group show ?thesis
    by (intro conjI)
qed

end
